theory Spec2Isabelle
  imports Main "HOL-Library.Word" "HOL-Library.Sublist"
begin

section \<open>The filesystem storage backend of pbm/storage/fs/fs.go\<close>

text \<open>
  The backend stores every object as one file below a root directory. Its operations
  are thin compositions of calls into Go's standard library (packages \<open>os\<close>,
  \<open>path\<close>, \<open>path/filepath\<close>, \<open>strings\<close>, \<open>io\<close>). The development has three
  layers:
  \<^item> the string functions of \<open>path\<close> and \<open>strings\<close>, as their documentation
    defines them (POSIX separator);
  \<^item> the operating system, as a tree of directories, regular files and symbolic
    links together with a plan of injected I/O faults;
  \<^item> the functions of fs.go, translated statement by statement over these two.

  The standard library is not part of the repository; its functions are modelled from
  their documentation, each under the name \<open>package_Function\<close>. A Go function that
  changes the filesystem takes the state and returns the new one with its result.
\<close>

subsection \<open>Errors\<close>

text \<open>
  \<open>errno\<close> is the system error carried by the \<open>*PathError\<close> and
  \<open>*LinkError\<close> values of package \<open>os\<close>. \<open>error\<close> is Go's \<open>error\<close>
  as this file builds it: a system error, one of the two sentinels of package
  \<open>storage\<close>, a fresh message, or another error wrapped with a message. A Go result
  of type \<open>error\<close> is an \<open>error option\<close>, \<open>None\<close> being \<open>nil\<close>.
\<close>

datatype errno =
  ENOENT | ENOTDIR | EISDIR | EEXIST | ENOTEMPTY | EINVAL | ELOOP | EACCES | EIO | ENOSPC

datatype error =
    OsError errno
  | ErrNotExist
  | ErrEmpty
  | ErrNew string
  | Wrapped error string

text \<open>
  Modelled from the spec: package \<open>pbm/errors\<close> is not under src/. The spec has
  every operation return success or the underlying failure wrapped with its context, so
  \<open>Wrap\<close>/\<open>Wrapf\<close> keep \<open>nil\<close> and otherwise put the message around
  the cause, and \<open>Is\<close> searches the chain of causes. The argument of
  \<open>errors_Wrapf\<close> is the message after formatting.
\<close>

definition errors_Wrapf :: "error option \<Rightarrow> string \<Rightarrow> error option" where
  "errors_Wrapf err msg = (case err of None \<Rightarrow> None | Some e \<Rightarrow> Some (Wrapped e msg))"

text \<open>
  \<open>errors.Is(err, os.ErrNotExist)\<close>: a system error matches exactly when it is
  \<open>ENOENT\<close>; the sentinels of package \<open>storage\<close> are values of their own.
\<close>

fun errors_Is_NotExist :: "error \<Rightarrow> bool" where
  "errors_Is_NotExist (OsError e) = (e = ENOENT)"
| "errors_Is_NotExist (Wrapped e m) = errors_Is_NotExist e"
| "errors_Is_NotExist _ = False"

text \<open>
  \<open>errors.Is(err, storage.ErrNotExist)\<close>: the sentinel itself, at any depth of the
  chain of causes.
\<close>

fun errors_Is_storage_ErrNotExist :: "error \<Rightarrow> bool" where
  "errors_Is_storage_ErrNotExist ErrNotExist = True"
| "errors_Is_storage_ErrNotExist (Wrapped e m) = errors_Is_storage_ErrNotExist e"
| "errors_Is_storage_ErrNotExist _ = False"

text \<open>\<open>os.IsNotExist\<close> looks only below the error types of package \<open>os\<close>.\<close>

fun os_IsNotExist :: "error \<Rightarrow> bool" where
  "os_IsNotExist (OsError e) = (e = ENOENT)"
| "os_IsNotExist _ = False"

subsection \<open>Path strings\<close>

text \<open>\<open>split_slash\<close> cuts a string at every \<open>/\<close>; it always yields at least one piece.\<close>

fun split_slash :: "string \<Rightarrow> string list" where
  "split_slash [] = [[]]"
| "split_slash (c # cs) =
     (if c = CHR ''/'' then [] # split_slash cs
      else (case split_slash cs of [] \<Rightarrow> [[c]] | w # ws \<Rightarrow> (c # w) # ws))"

fun join_slash :: "string list \<Rightarrow> string" where
  "join_slash [] = []"
| "join_slash [w] = w"
| "join_slash (w # ws) = w @ CHR ''/'' # join_slash ws"

text \<open>
  One element of a path under \<open>path.Clean\<close>: empty elements and \<open>.\<close> vanish,
  \<open>..\<close> removes the element before it, is dropped at the root of a rooted path and
  is kept at the front of a relative one.
\<close>

definition clean_step :: "bool \<Rightarrow> string list \<Rightarrow> string \<Rightarrow> string list" where
  "clean_step rooted acc c =
     (if c = [] \<or> c = ''.'' then acc
      else if c = ''..'' then
        (if acc \<noteq> [] \<and> last acc \<noteq> ''..'' then butlast acc
         else if rooted then acc else acc @ [c])
      else acc @ [c])"

definition path_Clean :: "string \<Rightarrow> string" where
  "path_Clean p =
     (if p = [] then ''.''
      else
        let rooted = (hd p = CHR ''/'');
            body = join_slash (foldl (clean_step rooted) [] (split_slash p))
        in if rooted then CHR ''/'' # body
           else if body = [] then ''.'' else body)"

text \<open>\<open>path.Join\<close> of two elements (\<open>filepath.Join\<close> is the same function on POSIX).\<close>

definition path_Join :: "string \<Rightarrow> string \<Rightarrow> string" where
  "path_Join a b =
     (if a = [] \<and> b = [] then []
      else if a = [] then path_Clean b
      else path_Clean (a @ CHR ''/'' # b))"

text \<open>\<open>path.Dir\<close>: everything up to the last slash, cleaned.\<close>

definition path_Dir :: "string \<Rightarrow> string" where
  "path_Dir p = path_Clean (join_slash (butlast (split_slash p) @ [[]]))"

definition strings_HasSuffix :: "string \<Rightarrow> string \<Rightarrow> bool" where
  "strings_HasSuffix s suf =
     (length suf \<le> length s \<and> drop (length s - length suf) s = suf)"

definition strings_TrimPrefix :: "string \<Rightarrow> string \<Rightarrow> string" where
  "strings_TrimPrefix s pre =
     (if length pre \<le> length s \<and> take (length pre) s = pre then drop (length pre) s else s)"

subsection \<open>The operating system: a tree of files\<close>

text \<open>
  A node is a regular file with its bytes, a directory with its entries, or a symbolic
  link with its target. A \<open>path\<close> is a list of entry names from the root of the
  tree. The working directory of the process is taken to be the root of the tree, so a
  relative path string is resolved from there as well.
\<close>

type_synonym byte = "8 word"

type_synonym path = "string list"

datatype node = File "byte list" | Dir "(string \<times> node) list" | Symlink string

fun get :: "node \<Rightarrow> path \<Rightarrow> node option" where
  "get n [] = Some n"
| "get (Dir es) (c # cs) = (case map_of es c of None \<Rightarrow> None | Some m \<Rightarrow> get m cs)"
| "get n (c # cs) = None"

text \<open>
  \<open>put t p v\<close> stores \<open>v\<close> at \<open>p\<close>, replacing what is there or adding an entry
  to the directory above; \<open>del t p\<close> removes the entry at \<open>p\<close> with all below it.
  Both leave the tree alone where the directory above \<open>p\<close> is missing.
\<close>

fun set_entry :: "string \<Rightarrow> node \<Rightarrow> (string \<times> node) list \<Rightarrow> (string \<times> node) list" where
  "set_entry c v [] = [(c, v)]"
| "set_entry c v ((k, m) # es) = (if k = c then (k, v) # es else (k, m) # set_entry c v es)"

fun put :: "node \<Rightarrow> path \<Rightarrow> node \<Rightarrow> node" where
  "put n [] v = v"
| "put (Dir es) (c # cs) v =
     (case map_of es c of
        None \<Rightarrow> if cs = [] then Dir (set_entry c v es) else Dir es
      | Some m \<Rightarrow> Dir (set_entry c (put m cs v) es))"
| "put n (c # cs) v = n"

fun del :: "node \<Rightarrow> path \<Rightarrow> node" where
  "del n [] = n"
| "del (Dir es) (c # cs) =
     (if cs = [] then Dir (filter (\<lambda>e. fst e \<noteq> c) es)
      else (case map_of es c of None \<Rightarrow> Dir es | Some m \<Rightarrow> Dir (set_entry c (del m cs) es)))"
| "del n (c # cs) = n"

text \<open>
  Path resolution as the kernel does it, one name at a time from the directory
  \<open>cur\<close>: an empty name and \<open>.\<close> stay, \<open>..\<close> goes up, a symbolic link is
  followed (the last name only when \<open>follow\<close> is set), at most \<open>k\<close> times. A last
  name that is missing in an existing directory resolves to the place where it would be
  created; the caller looks it up.
\<close>

fun resolve :: "nat \<Rightarrow> node \<Rightarrow> path \<Rightarrow> string list \<Rightarrow> bool \<Rightarrow> errno + path" where
  "resolve k t cur [] follow = Inr cur"
| "resolve k t cur (c # cs) follow =
     (case get t cur of
        Some (Dir es) \<Rightarrow>
          if c = [] \<or> c = ''.'' then resolve k t cur cs follow
          else if c = ''..'' then resolve k t (butlast cur) cs follow
          else (case map_of es c of
                  None \<Rightarrow> if cs = [] then Inr (cur @ [c]) else Inl ENOENT
                | Some (Symlink tgt) \<Rightarrow>
                    if cs = [] \<and> \<not> follow then Inr (cur @ [c])
                    else (case k of
                            0 \<Rightarrow> Inl ELOOP
                          | Suc k' \<Rightarrow>
                              if tgt = [] then Inl ENOENT
                              else resolve k' t (if hd tgt = CHR ''/'' then [] else cur)
                                     (split_slash tgt @ cs) follow)
                | Some m \<Rightarrow> resolve k t (cur @ [c]) cs follow)
      | Some m \<Rightarrow> Inl ENOTDIR
      | None \<Rightarrow> Inl ENOENT)"

definition namei :: "node \<Rightarrow> string \<Rightarrow> bool \<Rightarrow> errno + path" where
  "namei t p follow = (if p = [] then Inl ENOENT else resolve 40 t [] (split_slash p) follow)"

text \<open>
  The state of the operating system: the tree, the size \<open>Stat\<close> reports for a
  directory (it depends on the filesystem), and a plan of injected faults. A call whose
  kind has a fault planned fails with that error whatever the tree holds; a faulted
  write stores the first \<open>short_write\<close> bytes before it fails. Permission bits are
  not modelled.
\<close>

datatype sys =
    SysLstat | SysStat | SysEvalSymlinks | SysMkdirAll | SysCreate | SysChmod | SysWrite
  | SysSync | SysRemove | SysRename | SysOpen | SysRead | SysRemoveAll | SysReadDir

record os_state =
  tree :: node
  dir_size :: int
  fault :: "sys \<Rightarrow> errno option"
  short_write :: nat

text \<open>What \<open>os.FileInfo\<close> tells this program: \<open>IsDir\<close>, the \<open>ModeSymlink\<close> bit, \<open>Size\<close>.\<close>

record os_FileInfo =
  IsDir :: bool
  IsSymlink :: bool
  FSize :: int

definition node_info :: "os_state \<Rightarrow> node \<Rightarrow> os_FileInfo" where
  "node_info s n =
     (case n of
        File bs \<Rightarrow> \<lparr>IsDir = False, IsSymlink = False, FSize = int (length bs)\<rparr>
      | Dir es \<Rightarrow> \<lparr>IsDir = True, IsSymlink = False, FSize = dir_size s\<rparr>
      | Symlink tgt \<Rightarrow> \<lparr>IsDir = False, IsSymlink = True, FSize = int (length tgt)\<rparr>)"

text \<open>The node a path string names, links followed or not.\<close>

definition lookup :: "os_state \<Rightarrow> string \<Rightarrow> bool \<Rightarrow> errno + path \<times> node" where
  "lookup s p follow =
     (case namei (tree s) p follow of
        Inl e \<Rightarrow> Inl e
      | Inr cp \<Rightarrow> (case get (tree s) cp of None \<Rightarrow> Inl ENOENT | Some n \<Rightarrow> Inr (cp, n)))"

definition os_Lstat :: "os_state \<Rightarrow> string \<Rightarrow> error + os_FileInfo" where
  "os_Lstat s p =
     (case fault s SysLstat of
        Some e \<Rightarrow> Inl (OsError e)
      | None \<Rightarrow>
          (case lookup s p False of
             Inl e \<Rightarrow> Inl (OsError e)
           | Inr (cp, n) \<Rightarrow> Inr (node_info s n)))"

definition os_Stat :: "os_state \<Rightarrow> string \<Rightarrow> error + os_FileInfo" where
  "os_Stat s p =
     (case fault s SysStat of
        Some e \<Rightarrow> Inl (OsError e)
      | None \<Rightarrow>
          (case lookup s p True of
             Inl e \<Rightarrow> Inl (OsError e)
           | Inr (cp, n) \<Rightarrow> Inr (node_info s n)))"

text \<open>
  \<open>filepath.EvalSymlinks\<close>: the path string of the existing node the path names after
  every link is followed.
\<close>

definition path_string :: "path \<Rightarrow> string" where
  "path_string cp = CHR ''/'' # join_slash cp"

definition filepath_EvalSymlinks :: "os_state \<Rightarrow> string \<Rightarrow> error + string" where
  "filepath_EvalSymlinks s p =
     (case fault s SysEvalSymlinks of
        Some e \<Rightarrow> Inl (OsError e)
      | None \<Rightarrow>
          (case lookup s p True of
             Inl e \<Rightarrow> Inl (OsError e)
           | Inr (cp, n) \<Rightarrow> Inr (path_string cp)))"

text \<open>
  \<open>os.MkdirAll\<close>: creates the directory and every missing directory above it, and
  does nothing where the path is a directory already. A link on the way is followed
  when it leads to a directory; where it leads to nothing the \<open>Mkdir\<close> of the
  link's own name fails with \<open>EEXIST\<close>.
\<close>

fun mkdirs :: "node \<Rightarrow> path \<Rightarrow> string list \<Rightarrow> errno + node" where
  "mkdirs t cur [] =
     (case get t cur of Some (Dir es) \<Rightarrow> Inr t | Some m \<Rightarrow> Inl ENOTDIR | None \<Rightarrow> Inl ENOENT)"
| "mkdirs t cur (c # cs) =
     (case get t cur of
        Some (Dir es) \<Rightarrow>
          if c = [] \<or> c = ''.'' then mkdirs t cur cs
          else if c = ''..'' then mkdirs t (butlast cur) cs
          else (case map_of es c of
                  None \<Rightarrow> mkdirs (put t (cur @ [c]) (Dir [])) (cur @ [c]) cs
                | Some (Symlink tgt) \<Rightarrow>
                    (case resolve 40 t cur [c] True of
                       Inl e \<Rightarrow> Inl EEXIST
                     | Inr cp \<Rightarrow>
                         (case get t cp of
                            Some (Dir es') \<Rightarrow> mkdirs t cp cs
                          | Some m \<Rightarrow> Inl ENOTDIR
                          | None \<Rightarrow> Inl EEXIST))
                | Some m \<Rightarrow> mkdirs t (cur @ [c]) cs)
      | Some m \<Rightarrow> Inl ENOTDIR
      | None \<Rightarrow> Inl ENOENT)"

definition os_MkdirAll :: "os_state \<Rightarrow> string \<Rightarrow> error option \<times> os_state" where
  "os_MkdirAll s p =
     (case fault s SysMkdirAll of
        Some e \<Rightarrow> (Some (OsError e), s)
      | None \<Rightarrow>
          if p = [] then (Some (OsError ENOENT), s)
          else (case mkdirs (tree s) [] (split_slash p) of
                  Inl e \<Rightarrow> (Some (OsError e), s)
                | Inr t' \<Rightarrow> (None, s\<lparr>tree := t'\<rparr>)))"

text \<open>
  \<open>os.Create\<close> opens the file for writing, creating it or truncating it. The handle
  it returns is the resolved place of the file.
\<close>

definition os_Create :: "os_state \<Rightarrow> string \<Rightarrow> (error + path) \<times> os_state" where
  "os_Create s p =
     (case fault s SysCreate of
        Some e \<Rightarrow> (Inl (OsError e), s)
      | None \<Rightarrow>
          (case namei (tree s) p True of
             Inl e \<Rightarrow> (Inl (OsError e), s)
           | Inr cp \<Rightarrow>
               (case get (tree s) cp of
                  Some (Dir es) \<Rightarrow> (Inl (OsError EISDIR), s)
                | Some (Symlink tgt) \<Rightarrow> (Inl (OsError ELOOP), s)
                | _ \<Rightarrow> (Inr cp, s\<lparr>tree := put (tree s) cp (File [])\<rparr>))))"

definition os_Chmod :: "os_state \<Rightarrow> string \<Rightarrow> error option" where
  "os_Chmod s p =
     (case fault s SysChmod of
        Some e \<Rightarrow> Some (OsError e)
      | None \<Rightarrow> (case lookup s p True of Inl e \<Rightarrow> Some (OsError e) | Inr r \<Rightarrow> None))"

text \<open>Writing through a handle appends to the file, which \<open>os.Create\<close> left empty.\<close>

definition file_Write :: "os_state \<Rightarrow> path \<Rightarrow> byte list \<Rightarrow> error option \<times> os_state" where
  "file_Write s fw bs =
     (case get (tree s) fw of
        Some (File old) \<Rightarrow>
          (case fault s SysWrite of
             Some e \<Rightarrow>
               (Some (OsError e),
                s\<lparr>tree := put (tree s) fw (File (old @ take (short_write s) bs))\<rparr>)
           | None \<Rightarrow> (None, s\<lparr>tree := put (tree s) fw (File (old @ bs))\<rparr>))
      | _ \<Rightarrow> (Some (OsError EIO), s))"

definition file_Sync :: "os_state \<Rightarrow> path \<Rightarrow> error option" where
  "file_Sync s fw = (case fault s SysSync of Some e \<Rightarrow> Some (OsError e) | None \<Rightarrow> None)"

definition os_Open :: "os_state \<Rightarrow> string \<Rightarrow> error + path" where
  "os_Open s p =
     (case fault s SysOpen of
        Some e \<Rightarrow> Inl (OsError e)
      | None \<Rightarrow> (case lookup s p True of Inl e \<Rightarrow> Inl (OsError e) | Inr (cp, n) \<Rightarrow> Inr cp))"

text \<open>Reading an open file to its end gives the bytes it holds at that moment.\<close>

definition file_ReadAll :: "os_state \<Rightarrow> path \<Rightarrow> error + byte list" where
  "file_ReadAll s fr =
     (case fault s SysRead of
        Some e \<Rightarrow> Inl (OsError e)
      | None \<Rightarrow>
          (case get (tree s) fr of
             Some (File bs) \<Rightarrow> Inr bs
           | Some (Dir es) \<Rightarrow> Inl (OsError EISDIR)
           | _ \<Rightarrow> Inl (OsError EIO)))"

text \<open>\<open>os.Remove\<close> removes a file, a link or an empty directory.\<close>

definition os_Remove :: "os_state \<Rightarrow> string \<Rightarrow> error option \<times> os_state" where
  "os_Remove s p =
     (case fault s SysRemove of
        Some e \<Rightarrow> (Some (OsError e), s)
      | None \<Rightarrow>
          (case lookup s p False of
             Inl e \<Rightarrow> (Some (OsError e), s)
           | Inr (cp, n) \<Rightarrow>
               if cp = [] then (Some (OsError EINVAL), s)
               else (case n of
                       Dir (e # es) \<Rightarrow> (Some (OsError ENOTEMPTY), s)
                     | _ \<Rightarrow> (None, s\<lparr>tree := del (tree s) cp\<rparr>))))"

text \<open>
  \<open>os.Rename\<close> moves a node to a new place, replacing a file or an empty directory
  there. A file does not replace a directory, nor a directory a file, and a directory
  does not move below itself.
\<close>

definition os_Rename :: "os_state \<Rightarrow> string \<Rightarrow> string \<Rightarrow> error option \<times> os_state" where
  "os_Rename s old new =
     (case fault s SysRename of
        Some e \<Rightarrow> (Some (OsError e), s)
      | None \<Rightarrow>
          (case lookup s old False of
             Inl e \<Rightarrow> (Some (OsError e), s)
           | Inr (co, n) \<Rightarrow>
               (case namei (tree s) new False of
                  Inl e \<Rightarrow> (Some (OsError e), s)
                | Inr cn \<Rightarrow>
                    if co = cn then (None, s)
                    else if co = [] \<or> cn = [] \<or> prefix co cn then (Some (OsError EINVAL), s)
                    else (case (n, get (tree s) cn) of
                            (Dir es, Some (Dir (e # es'))) \<Rightarrow> (Some (OsError ENOTEMPTY), s)
                          | (Dir es, Some (Dir [])) \<Rightarrow>
                              (None, s\<lparr>tree := put (del (tree s) co) cn n\<rparr>)
                          | (Dir es, Some m) \<Rightarrow> (Some (OsError ENOTDIR), s)
                          | (m, Some (Dir es')) \<Rightarrow> (Some (OsError EISDIR), s)
                          | _ \<Rightarrow> (None, s\<lparr>tree := put (del (tree s) co) cn n\<rparr>)))))"

text \<open>
  \<open>os.RemoveAll\<close> removes the path and everything below it. Its documentation:
  "If the path does not exist, RemoveAll returns nil (no error)". It first tries
  \<open>Remove\<close>, is done when that succeeds or reports that the path does not exist,
  empties a directory that was not empty, and returns any other error. A path ending
  in a dot is refused.
\<close>

definition os_RemoveAll :: "os_state \<Rightarrow> string \<Rightarrow> error option \<times> os_state" where
  "os_RemoveAll s p =
     (if p = [] then (None, s)
      else if last (split_slash p) = ''.'' then (Some (OsError EINVAL), s)
      else
        (case fault s SysRemoveAll of
           Some e \<Rightarrow> (Some (OsError e), s)
         | None \<Rightarrow>
             (case os_Remove s p of
                (None, s') \<Rightarrow> (None, s')
              | (Some err, s') \<Rightarrow>
                  if os_IsNotExist err then (None, s')
                  else if err = OsError ENOTEMPTY then
                    (case lookup s p False of
                       Inr (cp, Dir es) \<Rightarrow> (None, s\<lparr>tree := del (tree s) cp\<rparr>)
                     | _ \<Rightarrow> (Some err, s'))
                  else (Some err, s'))))"

text \<open>
  An \<open>io.Reader\<close> is either a stream that delivers its bytes and then ends or
  fails, or a file opened for reading, which delivers what the file holds when it is
  read. \<open>io.Copy\<close> returns the first error of the writer or of the reader.
\<close>

datatype reader = Stream "byte list" "error option" | FileReader path

definition reader_ReadAll :: "os_state \<Rightarrow> reader \<Rightarrow> error + byte list" where
  "reader_ReadAll s r =
     (case r of
        Stream bs None \<Rightarrow> Inr bs
      | Stream bs (Some e) \<Rightarrow> Inl e
      | FileReader fr \<Rightarrow> file_ReadAll s fr)"

definition io_Copy :: "os_state \<Rightarrow> path \<Rightarrow> reader \<Rightarrow> error option \<times> os_state" where
  "io_Copy s fw r =
     (case r of
        Stream bs rerr \<Rightarrow>
          (case file_Write s fw bs of
             (Some e, s') \<Rightarrow> (Some e, s')
           | (None, s') \<Rightarrow> (rerr, s'))
      | FileReader fr \<Rightarrow>
          (case file_ReadAll s fr of
             Inl e \<Rightarrow> (Some e, s)
           | Inr bs \<Rightarrow> file_Write s fw bs))"

text \<open>
  \<open>filepath.WalkDir\<close>: \<open>Lstat\<close> of the root, then the root and everything below
  it, each directory before its entries; the callback gets the path string, the entry
  and an error, and threads the value \<open>acc\<close> that stands for the variables it
  captures. An error of the callback ends the walk (the callback of this program never
  returns \<open>SkipDir\<close>). The entries of a directory are visited in the order the
  tree holds them.
\<close>

type_synonym 'a WalkDirFunc =
  "string \<Rightarrow> os_FileInfo option \<Rightarrow> error option \<Rightarrow> 'a \<Rightarrow> error option \<times> 'a"

definition filepath_Join :: "string \<Rightarrow> string \<Rightarrow> string" where
  "filepath_Join a b = path_Join a b"

definition filepath_ToSlash :: "string \<Rightarrow> string" where
  "filepath_ToSlash p = p"

fun walkDir :: "os_state \<Rightarrow> 'a WalkDirFunc \<Rightarrow> string \<Rightarrow> node \<Rightarrow> 'a \<Rightarrow> error option \<times> 'a"
  and walkEntries ::
    "os_state \<Rightarrow> 'a WalkDirFunc \<Rightarrow> string \<Rightarrow> (string \<times> node) list \<Rightarrow> 'a \<Rightarrow> error option \<times> 'a"
where
  "walkDir s fn p n acc =
     (case fn p (Some (node_info s n)) None acc of
        (Some e, acc') \<Rightarrow> (Some e, acc')
      | (None, acc') \<Rightarrow>
          (case n of
             Dir es \<Rightarrow>
               (case fault s SysReadDir of
                  Some e \<Rightarrow> fn p (Some (node_info s n)) (Some (OsError e)) acc'
                | None \<Rightarrow> walkEntries s fn p es acc')
           | _ \<Rightarrow> (None, acc')))"
| "walkEntries s fn p [] acc = (None, acc)"
| "walkEntries s fn p (e # es) acc =
     (case walkDir s fn (filepath_Join p (fst e)) (snd e) acc of
        (Some err, acc') \<Rightarrow> (Some err, acc')
      | (None, acc') \<Rightarrow> walkEntries s fn p es acc')"

definition filepath_WalkDir :: "os_state \<Rightarrow> string \<Rightarrow> 'a WalkDirFunc \<Rightarrow> 'a \<Rightarrow> error option \<times> 'a" where
  "filepath_WalkDir s root_path fn acc =
     (case os_Lstat s root_path of
        Inl err \<Rightarrow> fn root_path None (Some err) acc
      | Inr info \<Rightarrow>
          (case lookup s root_path False of
             Inl e \<Rightarrow> fn root_path None (Some (OsError e)) acc
           | Inr (cp, n) \<Rightarrow> walkDir s fn root_path n acc))"

subsection \<open>The functions of fs.go\<close>


record FS =
  root :: string

text \<open>
  Modelled from the spec: \<open>storage.FileInfo\<close> is declared outside src/; the spec
  has it hold the relative name and the byte size of an object. The two errors
  \<open>storage.ErrNotExist\<close> and \<open>storage.ErrEmpty\<close> are the constructors
  \<open>ErrNotExist\<close> and \<open>ErrEmpty\<close> of \<open>error\<close>.
\<close>

record FileInfo =
  Name :: string
  Size :: int



definition WriteSync :: "string \<Rightarrow> reader \<Rightarrow> os_state \<Rightarrow> error option \<times> os_state" where
  "WriteSync filepath data s =
     (case os_MkdirAll s (path_Dir filepath) of
        (Some err, s1) \<Rightarrow>
          (errors_Wrapf (Some err) (''create path '' @ path_Dir filepath), s1)
      | (None, s1) \<Rightarrow>
          (case os_Create s1 filepath of
             (Inl err, s2) \<Rightarrow>
               (errors_Wrapf (Some err) (''create destination file <'' @ filepath @ ''>''), s2)
           | (Inr fw, s2) \<Rightarrow>
               (case os_Chmod s2 filepath of
                  Some err \<Rightarrow>
                    (errors_Wrapf (Some err)
                       (''change permissions for file <'' @ filepath @ ''>''), s2)
                | None \<Rightarrow>
                    (case io_Copy s2 fw data of
                       (Some err, s3) \<Rightarrow>
                         (errors_Wrapf (Some err) (''copy file <'' @ filepath @ ''>''), s3)
                     | (None, s3) \<Rightarrow>
                         (errors_Wrapf (file_Sync s3 fw)
                            (''sync file <'' @ filepath @ ''>''), s3)))))"

definition Save :: "FS \<Rightarrow> string \<Rightarrow> reader \<Rightarrow> int \<Rightarrow> os_state \<Rightarrow> error option \<times> os_state" where
  "Save fs name data sz s =
     (let filepath = path_Join (root fs) (name @ ''.tmp'');
          finalpath = path_Join (root fs) name
      in case WriteSync filepath data s of
           (Some err, s1) \<Rightarrow>
             (errors_Wrapf (Some err) (''write-sync '' @ path_Dir filepath),
              snd (os_Remove s1 filepath))
         | (None, s1) \<Rightarrow>
             (case os_Rename s1 filepath finalpath of
                (err, s2) \<Rightarrow>
                  (errors_Wrapf err
                     (''rename <'' @ filepath @ ''> to <'' @ finalpath @ ''>''), s2)))"

definition SourceReader :: "FS \<Rightarrow> string \<Rightarrow> os_state \<Rightarrow> error + reader" where
  "SourceReader fs name s =
     (let filepath = path_Join (root fs) name
      in case os_Open s filepath of
           Inl err \<Rightarrow>
             if errors_Is_NotExist err then Inl ErrNotExist
             else Inl (Wrapped err (''open file '' @ [CHR 0x27] @ filepath @ [CHR 0x27]))
         | Inr fr \<Rightarrow> Inr (FileReader fr))"

definition FileStat :: "FS \<Rightarrow> string \<Rightarrow> os_state \<Rightarrow> FileInfo \<times> error option" where
  "FileStat fs name s =
     (let inf = \<lparr>Name = [], Size = 0\<rparr>
      in case os_Stat s (path_Join (root fs) name) of
           Inl err \<Rightarrow> if errors_Is_NotExist err then (inf, Some ErrNotExist) else (inf, Some err)
         | Inr f \<Rightarrow>
             (let inf = inf\<lparr>Size := FSize f\<rparr>
              in if Size inf = 0 then (inf, Some ErrEmpty) else (inf, None)))"

definition list_visit :: "string \<Rightarrow> string \<Rightarrow> FileInfo list WalkDirFunc" where
  "list_visit base sfx p entry err files =
     (case err of
        Some e \<Rightarrow>
          if os_IsNotExist e then (None, files)
          else (errors_Wrapf (Some e) ''walking the path'', files)
      | None \<Rightarrow>
          (case entry of
             None \<Rightarrow> (Some (ErrNew ''nil entry''), files)
           | Some info \<Rightarrow>
               if IsDir info then (None, files)
               else
                 (let f = filepath_ToSlash (strings_TrimPrefix p base)
                  in if length f = 0 then (None, files)
                     else
                       (let f = (if hd f = CHR ''/'' then tl f else f)
                        in if strings_HasSuffix f sfx
                           then (None, files @ [\<lparr>Name = f, Size = FSize info\<rparr>])
                           else (None, files)))))"

definition List :: "FS \<Rightarrow> string \<Rightarrow> string \<Rightarrow> os_state \<Rightarrow> FileInfo list \<times> error option" where
  "List fs pfx sfx s =
     (let base = filepath_Join (root fs) pfx
      in case filepath_WalkDir s base (list_visit base sfx) [] of
           (err, files) \<Rightarrow> (files, err))"

definition Copy :: "FS \<Rightarrow> string \<Rightarrow> string \<Rightarrow> os_state \<Rightarrow> error option \<times> os_state" where
  "Copy fs src dst s =
     (case os_Open s (path_Join (root fs) src) of
        Inl err \<Rightarrow> (errors_Wrapf (Some err) ''open src'', s)
      | Inr from \<Rightarrow>
          (let destFilename = path_Join (root fs) (dst @ ''.tmp'');
               finalFilename = path_Join (root fs) dst
           in case WriteSync destFilename (FileReader from) s of
                (Some err, s1) \<Rightarrow>
                  (errors_Wrapf (Some err) (''write-sync '' @ path_Dir destFilename),
                   snd (os_Remove s1 destFilename))
              | (None, s1) \<Rightarrow>
                  (case os_Rename s1 destFilename finalFilename of
                     (err, s2) \<Rightarrow>
                       (errors_Wrapf err
                          (''rename <'' @ destFilename @ ''> to <'' @ finalFilename @ ''>''),
                        s2))))"

definition Delete :: "FS \<Rightarrow> string \<Rightarrow> os_state \<Rightarrow> error option \<times> os_state" where
  "Delete fs name s =
     (case os_RemoveAll s (path_Join (root fs) name) of
        (Some err, s') \<Rightarrow> if os_IsNotExist err then (Some ErrNotExist, s') else (Some err, s')
      | (None, s') \<Rightarrow> (None, s'))"

subsection \<open>Well-formed stores and the places of names\<close>

text \<open>
  A \<open>plain\<close> name is one a directory can hold: not empty, not \<open>.\<close> or
  \<open>..\<close>, and without a slash. \<open>clean_path\<close> gives the names of a rooted path
  string after cleaning.
\<close>

definition plain :: "string \<Rightarrow> bool" where
  "plain c = (c \<noteq> [] \<and> c \<noteq> ''.'' \<and> c \<noteq> ''..'' \<and> CHR ''/'' \<notin> set c)"

definition slash_free :: "string \<Rightarrow> bool" where
  "slash_free c = (CHR ''/'' \<notin> set c)"

definition clean_path :: "string \<Rightarrow> path" where
  "clean_path p = foldl (clean_step True) [] (split_slash p)"

text \<open>
  The store of the specification holds directories and regular files only:
  \<open>link_free\<close> says that no symbolic link occurs in a tree, and a well-formed tree
  is a directory without links. \<open>wf_names\<close> says that the names in every
  directory are plain and distinct.
\<close>

fun link_free :: "node \<Rightarrow> bool" and link_free_entries :: "(string \<times> node) list \<Rightarrow> bool" where
  "link_free (File bs) = True"
| "link_free (Symlink tgt) = False"
| "link_free (Dir es) = link_free_entries es"
| "link_free_entries [] = True"
| "link_free_entries (e # es) = (link_free (snd e) \<and> link_free_entries es)"

fun wf_names :: "node \<Rightarrow> bool" and wf_names_entries :: "(string \<times> node) list \<Rightarrow> bool" where
  "wf_names (File bs) = True"
| "wf_names (Symlink tgt) = True"
| "wf_names (Dir es) = (distinct (map fst es) \<and> wf_names_entries es)"
| "wf_names_entries [] = True"
| "wf_names_entries (e # es) = (plain (fst e) \<and> wf_names (snd e) \<and> wf_names_entries es)"

text \<open>
  \<open>locate t p\<close> is what the kernel answers for the names \<open>p\<close> from the node
  \<open>t\<close> when no link is in the way: the node, \<open>ENOENT\<close> where a name is
  missing in a directory, \<open>ENOTDIR\<close> where a name stands below a regular file.
  \<open>dir_at\<close> says that a directory is at a place, \<open>parent_ok\<close> that one is
  at the place above.
\<close>

fun locate :: "node \<Rightarrow> path \<Rightarrow> errno + node" where
  "locate n [] = Inr n"
| "locate (Dir es) (c # cs) = (case map_of es c of None \<Rightarrow> Inl ENOENT | Some m \<Rightarrow> locate m cs)"
| "locate n (c # cs) = Inl ENOTDIR"

definition is_dir :: "node \<Rightarrow> bool" where
  "is_dir n = (case n of Dir es \<Rightarrow> True | _ \<Rightarrow> False)"

definition dir_at :: "node \<Rightarrow> path \<Rightarrow> bool" where
  "dir_at t p = (case locate t p of Inr (Dir es) \<Rightarrow> True | _ \<Rightarrow> False)"

definition parent_ok :: "node \<Rightarrow> path \<Rightarrow> bool" where
  "parent_ok t cs = (cs = [] \<or> (case locate t (butlast cs) of Inr (Dir es) \<Rightarrow> True | _ \<Rightarrow> False))"

definition wf_tree :: "node \<Rightarrow> bool" where
  "wf_tree t = (is_dir t \<and> link_free t)"

text \<open>
  Two states have the same environment when they differ in the tree at most.
\<close>

definition same_env :: "os_state \<Rightarrow> os_state \<Rightarrow> bool" where
  "same_env s s' = (fault s' = fault s \<and> dir_size s' = dir_size s \<and> short_write s' = short_write s)"

text \<open>
  The storage root of the specification is an absolute path. \<open>final_path\<close> and
  \<open>staging_path\<close> are the places of an object and of its staging file below it.
\<close>

definition abs_root :: "FS \<Rightarrow> bool" where
  "abs_root fs = (root fs \<noteq> [] \<and> hd (root fs) = CHR ''/'')"

definition final_path :: "FS \<Rightarrow> string \<Rightarrow> path" where
  "final_path fs name = clean_path (root fs @ CHR ''/'' # name)"

definition staging_path :: "FS \<Rightarrow> string \<Rightarrow> path" where
  "staging_path fs name = final_path fs (name @ ''.tmp'')"

subsection \<open>What a failed write is to leave\<close>

text \<open>
  Following the specification: \<open>failed_write fs name s r e s1\<close> says of the
  result \<open>r\<close> of a \<open>Save\<close> or \<open>Copy\<close> to \<open>name\<close>, started in the
  state \<open>s\<close>, that it returns the failure \<open>e\<close> of the write (wrapped by
  \<open>Save\<close>), that its final state is that of \<open>os.Remove\<close> of the staging
  path in the state \<open>s1\<close> where the write stopped, that the final name leads
  to exactly what it led to in \<open>s\<close>, and that no regular file is left at the
  staging path unless the removal is itself made to fail.
\<close>

definition failed_write ::
  "FS \<Rightarrow> string \<Rightarrow> os_state \<Rightarrow> error option \<times> os_state \<Rightarrow> error \<Rightarrow> os_state \<Rightarrow> bool" where
  "failed_write fs name s r e s1 =
     (fst r = Some (Wrapped e (''write-sync '' @ path_Dir (path_Join (root fs) (name @ ''.tmp''))))
      \<and> snd r = snd (os_Remove s1 (path_Join (root fs) (name @ ''.tmp'')))
      \<and> (\<forall>fl. lookup (snd r) (path_Join (root fs) name) fl = lookup s (path_Join (root fs) name) fl)
      \<and> (fault s SysRemove = None \<longrightarrow>
           (\<forall>cp b. lookup (snd r) (path_Join (root fs) (name @ ''.tmp'')) False \<noteq> Inr (cp, File b))))"

subsection \<open>What List is to return\<close>

text \<open>
  \<open>hits s sfx p n\<close> is the set of entries for the nodes other than directories
  at or below the node \<open>n\<close>, itself at the relative path \<open>p\<close>, whose
  relative path is not empty and ends with the suffix; an entry holds the
  slash-joined relative path and the size the system reports for the node.
  \<open>listing\<close> enumerates what the walk of \<open>List\<close> collects, in the order of
  the walk, and \<open>rel_name\<close> is the string the callback computes for a place.
\<close>

definition hit :: "os_state \<Rightarrow> path \<Rightarrow> node \<Rightarrow> FileInfo" where
  "hit s p m = \<lparr>Name = join_slash p, Size = FSize (node_info s m)\<rparr>"

definition hits :: "os_state \<Rightarrow> string \<Rightarrow> path \<Rightarrow> node \<Rightarrow> FileInfo set" where
  "hits s sfx p n = {hit s (p @ q) m | q m. locate n q = Inr m \<and> \<not> is_dir m \<and> p @ q \<noteq> []
                       \<and> strings_HasSuffix (join_slash (p @ q)) sfx}"

definition entry :: "os_state \<Rightarrow> string \<Rightarrow> path \<Rightarrow> node \<Rightarrow> FileInfo list" where
  "entry s sfx p n =
     (if p \<noteq> [] \<and> strings_HasSuffix (join_slash p) sfx
      then [\<lparr>Name = join_slash p, Size = FSize (node_info s n)\<rparr>] else [])"

fun listing :: "os_state \<Rightarrow> string \<Rightarrow> path \<Rightarrow> node \<Rightarrow> FileInfo list"
  and listing_entries :: "os_state \<Rightarrow> string \<Rightarrow> path \<Rightarrow> (string \<times> node) list \<Rightarrow> FileInfo list"
where
  "listing s sfx p (File bs) = entry s sfx p (File bs)"
| "listing s sfx p (Symlink tgt) = entry s sfx p (Symlink tgt)"
| "listing s sfx p (Dir es) = listing_entries s sfx p es"
| "listing_entries s sfx p [] = []"
| "listing_entries s sfx p (e # es) =
     listing s sfx (p @ [fst e]) (snd e) @ listing_entries s sfx p es"

definition rel_name :: "path \<Rightarrow> path \<Rightarrow> string" where
  "rel_name B p = filepath_ToSlash (strings_TrimPrefix (path_string (B @ p)) (path_string B))"

subsection \<open>Example stores\<close>

text \<open>
  The scenario of the specification: the root \<open>/data\<close> holding the object
  \<open>db/coll.bson\<close> with the eleven bytes of "hello world", and no fault planned.
  \<open>ex_fault c\<close> is the same store where every call of kind \<open>c\<close> fails and
  a failing write stores two bytes; \<open>ex_tmp\<close> holds one object named
  \<open>p.tmp\<close>; \<open>ex_links\<close> has symbolic links at its top; \<open>ex_list\<close>
  is the store of the specification's listing example.
\<close>

definition hello_world :: "byte list" where
  "hello_world = [104, 101, 108, 108, 111, 32, 119, 111, 114, 108, 100]"

definition ex_fs :: FS where
  "ex_fs = \<lparr>root = ''/data''\<rparr>"

definition ex_state :: os_state where
  "ex_state =
     \<lparr>tree = Dir [(''data'', Dir [(''db'', Dir [(''coll.bson'', File hello_world)])])],
      dir_size = 4096, fault = (\<lambda>c. None), short_write = 0\<rparr>"

definition ex_fault :: "sys \<Rightarrow> os_state" where
  "ex_fault c = ex_state\<lparr>fault := (\<lambda>k. if k = c then Some EIO else None), short_write := 2\<rparr>"

definition ex_tmp :: os_state where
  "ex_tmp = ex_state\<lparr>tree := Dir [(''data'', Dir [(''p.tmp'', File [1, 2, 3])])]\<rparr>"


definition ex_list :: os_state where
  "ex_list = ex_state\<lparr>tree :=
     Dir [(''data'',
           Dir [(''a'', Dir [(''x.json'', File [1, 2]), (''y.txt'', File [3])]),
                (''b'', Dir [(''z.json'', File [4])])])]\<rparr>"

text \<open>
  The store \<open>ex_list\<close> with two symbolic links in the directory \<open>a\<close>: one to
  the file beside it, one to the directory \<open>b\<close>.
\<close>

definition ex_list_links :: os_state where
  "ex_list_links = ex_state\<lparr>tree :=
     Dir [(''data'',
           Dir [(''a'', Dir [(''x.json'', File [1, 2]), (''l.json'', Symlink ''x.json''),
                             (''d'', Symlink ''/data/b'')]),
                (''b'', Dir [(''z.json'', File [4])])])]\<rparr>"

section \<open>Properties\<close>

lemmas path_defs = path_Join_def path_Clean_def clean_step_def path_Dir_def

lemmas os_defs =
  lookup_def namei_def node_info_def os_Lstat_def os_Stat_def os_Open_def os_Remove_def
  os_RemoveAll_def os_MkdirAll_def os_Create_def os_Chmod_def os_Rename_def file_Write_def
  file_Sync_def file_ReadAll_def io_Copy_def reader_ReadAll_def filepath_EvalSymlinks_def
  path_string_def

lemmas ex_defs = ex_fs_def ex_state_def hello_world_def

lemma path_Join_example: "path_Join ''/data'' (''db/coll.bson'' @ ''.tmp'') = ''/data/db/coll.bson.tmp''"
  by (simp add: path_Join_def path_Clean_def clean_step_def)

lemma path_Dir_example: "path_Dir ''/data/db/coll.bson.tmp'' = ''/data/db''"
  by (simp add: path_Dir_def path_Clean_def clean_step_def)

subsection \<open>Trees: lookup without links\<close>

lemma get_locate: "get t cs = (case locate t cs of Inr m \<Rightarrow> Some m | Inl e \<Rightarrow> None)"
  by (induction t cs rule: locate.induct) (auto split: option.splits)

lemma locate_append:
  "locate t (p @ q) = (case locate t p of Inl e \<Rightarrow> Inl e | Inr n \<Rightarrow> locate n q)"
proof (induction p arbitrary: t)
  case Nil show ?case by simp
next
  case (Cons c p) show ?case 
    by (cases t) (auto simp: Cons split: option.splits)
qed

lemma map_of_set_entry: "map_of (set_entry c v es) = (map_of es)(c \<mapsto> v)"
  by (induction es) (auto simp: fun_eq_iff)

lemma link_free_entries_map_of:
  "link_free_entries es \<Longrightarrow> map_of es c = Some m \<Longrightarrow> link_free m"
  by (induction es) (auto split: if_splits)

lemma link_free_locate: "link_free t \<Longrightarrow> locate t p = Inr n \<Longrightarrow> link_free n"
proof (induction t p rule: locate.induct)
  case (2 es c cs)
  then show ?case by (auto split: option.splits dest: link_free_entries_map_of)
qed auto

lemma resolve_plain:
  assumes "link_free t" "list_all plain cs" "locate t cur = Inr n"
  shows "resolve k t cur cs fl =
           (case locate n cs of Inr m \<Rightarrow> Inr (cur @ cs)
            | Inl e \<Rightarrow> if parent_ok n cs then Inr (cur @ cs) else Inl e)"
  using assms
proof (induction cs arbitrary: cur n)
  case Nil
  then show ?case by simp
next
  case (Cons c cs)
  have g: "get t cur = Some n" using Cons.prems by (simp add: get_locate)
  have lf: "link_free n" using Cons.prems link_free_locate by blast
  have pc: "c \<noteq> []" "c \<noteq> ''.''" "c \<noteq> ''..''" using Cons.prems by (auto simp: plain_def)
  show ?case
  proof (cases n)
    case (File bs)
    then show ?thesis using g by (auto simp: parent_ok_def locate_append split: sum.splits node.splits)
  next
    case (Symlink x) then show ?thesis using lf by simp
  next
    case (Dir es)
    show ?thesis
    proof (cases "map_of es c")
      case None
      then show ?thesis using g Dir pc
        by (cases cs rule: rev_cases) (auto simp: parent_ok_def locate_append butlast_append split: sum.splits node.splits)
    next
      case (Some m)
      have lm: "link_free m" using lf Dir Some link_free_entries_map_of by auto
      have f': "locate t (cur @ [c]) = Inr m" using Cons.prems Dir Some by (simp add: locate_append)
      have ih: "resolve k t (cur @ [c]) cs fl =
           (case locate m cs of Inr m' \<Rightarrow> Inr ((cur @ [c]) @ cs)
            | Inl e \<Rightarrow> if parent_ok m cs then Inr ((cur @ [c]) @ cs) else Inl e)"
        using Cons.IH[OF Cons.prems(1) _ f'] Cons.prems(2) by simp
      have po: "parent_ok (Dir es) (c # cs) = (cs = [] \<or> parent_ok m cs)"
        using Some by (cases cs) (auto simp: parent_ok_def)
      show ?thesis using g Dir pc Some lm ih po
        by (cases m) (auto split: sum.splits simp: parent_ok_def)
    qed
  qed
qed

subsection \<open>Path strings: splitting, joining, cleaning\<close>

lemma split_slash_nonempty [simp]: "split_slash p \<noteq> []"
  by (induction p) (auto split: list.splits)

lemma split_slash_slash_free: "c \<in> set (split_slash p) \<Longrightarrow> slash_free c"
  by (induction p arbitrary: c) (auto simp: slash_free_def split: list.splits if_splits)

lemma split_slash_free_id: "slash_free w \<Longrightarrow> split_slash w = [w]"
  by (induction w) (auto simp: slash_free_def)

lemma split_slash_append_slash:
  "split_slash (a @ CHR ''/'' # b) = split_slash a @ split_slash b"
proof (induction a)
  case Nil show ?case by simp
next
  case (Cons x a)
  obtain w ws where s: "split_slash a = w # ws" by (cases "split_slash a") auto
  show ?case using Cons s by auto
qed

lemma split_slash_append_free:
  "slash_free ys \<Longrightarrow>
   split_slash (xs @ ys) = butlast (split_slash xs) @ [last (split_slash xs) @ ys]"
proof (induction xs)
  case Nil then show ?case by (simp add: split_slash_free_id)
next
  case (Cons x xs)
  obtain w ws where s: "split_slash xs = w # ws" by (cases "split_slash xs") auto
  show ?case using Cons s by (cases ws) auto
qed

lemma split_join:
  "cs \<noteq> [] \<Longrightarrow> list_all slash_free cs \<Longrightarrow> split_slash (join_slash cs) = cs"
proof (induction cs rule: join_slash.induct)
  case 1 then show ?case by simp
next
  case (2 w) then show ?case by (simp add: split_slash_free_id)
next
  case (3 w v ws)
  then show ?case by (simp add: split_slash_append_slash split_slash_free_id)
qed

lemma plain_slash_free: "plain c \<Longrightarrow> slash_free c"
  by (simp add: plain_def slash_free_def)

lemma clean_step_plain:
  "list_all plain acc \<Longrightarrow> slash_free c \<Longrightarrow> list_all plain (clean_step True acc c)"
  by (auto simp: clean_step_def plain_def slash_free_def list_all_iff dest: in_set_butlastD)

lemma foldl_clean_plain:
  "list_all plain acc \<Longrightarrow> list_all slash_free cs \<Longrightarrow>
   list_all plain (foldl (clean_step True) acc cs)"
  by (induction cs arbitrary: acc) (auto simp: clean_step_plain)

lemma clean_path_plain: "list_all plain (clean_path p)"
  unfolding clean_path_def
  by (rule foldl_clean_plain) (auto simp: list_all_iff split_slash_slash_free)

lemma foldl_clean_id:
  "list_all plain cs \<Longrightarrow> foldl (clean_step True) acc cs = acc @ cs"
  by (induction cs arbitrary: acc) (auto simp: clean_step_def plain_def)

lemma path_Clean_rooted:
  "p \<noteq> [] \<Longrightarrow> hd p = CHR ''/'' \<Longrightarrow> path_Clean p = path_string (clean_path p)"
  by (simp add: path_Clean_def path_string_def clean_path_def)

lemma path_Join_abs:
  "r \<noteq> [] \<Longrightarrow> hd r = CHR ''/'' \<Longrightarrow>
   path_Join r x = path_string (clean_path (r @ CHR ''/'' # x))"
  by (simp add: path_Join_def path_Clean_rooted)

lemma split_path_string:
  "list_all plain cs \<Longrightarrow> split_slash (path_string cs) = [] # (if cs = [] then [[]] else cs)"
  by (auto simp: path_string_def split_join list_all_iff plain_slash_free)

lemma clean_path_path_string: "list_all plain cs \<Longrightarrow> clean_path (path_string cs) = cs"
  by (auto simp: clean_path_def split_path_string clean_step_def foldl_clean_id)

lemma path_Dir_path_string:
  assumes "list_all plain (P @ [x])"
  shows "path_Dir (path_string (P @ [x])) = path_string P"
proof -
  have pl: "list_all plain P" using assms by simp
  have sf: "list_all slash_free ([] # P @ [[]])"
    using pl by (auto simp: list_all_iff plain_def slash_free_def)
  have "split_slash (path_string (P @ [x])) = [] # P @ [x]"
    using assms by (simp add: split_path_string)
  then have d: "path_Dir (path_string (P @ [x])) = path_Clean (join_slash ([] # P @ [[]]))"
    by (simp add: path_Dir_def butlast_append)
  have j: "join_slash ([] # P @ [[]]) = CHR ''/'' # join_slash (P @ [[]])"
    by (cases P) auto
  have s: "split_slash (join_slash ([] # P @ [[]])) = [] # P @ [[]]"
    using sf by (simp add: split_join del: join_slash.simps)
  have "clean_path (join_slash ([] # P @ [[]])) = P"
    using pl by (simp add: clean_path_def s clean_step_def foldl_clean_id)
  then show ?thesis using d j by (simp add: path_Clean_rooted)
qed

lemma tmp_plain: "slash_free l \<Longrightarrow> plain (l @ ''.tmp'')"
  by (auto simp: plain_def slash_free_def) 

lemma clean_path_tmp:
  "clean_path (r @ CHR ''/'' # name @ ''.tmp'') =
     foldl (clean_step True) (clean_path r) (butlast (split_slash name))
       @ [last (split_slash name) @ ''.tmp'']"
proof -
  have sf: "slash_free ''.tmp''" by (simp add: slash_free_def)
  have l: "slash_free (last (split_slash name))"
    using split_slash_slash_free[of "last (split_slash name)" name] by simp
  have "plain (last (split_slash name) @ ''.tmp'')" using l by (rule tmp_plain)
  then show ?thesis
    by (simp add: clean_path_def split_slash_append_slash split_slash_append_free[OF sf]
        clean_step_def plain_def)
qed

lemma clean_path_final:
  "clean_path (r @ CHR ''/'' # name) =
     clean_step True (foldl (clean_step True) (clean_path r) (butlast (split_slash name)))
       (last (split_slash name))"
proof -
  have "split_slash name = butlast (split_slash name) @ [last (split_slash name)]" by simp
  then have "foldl (clean_step True) (clean_path r) (split_slash name)
     = clean_step True (foldl (clean_step True) (clean_path r) (butlast (split_slash name)))
       (last (split_slash name))"
    by (metis foldl_Cons foldl_Nil foldl_append)
  then show ?thesis by (simp add: clean_path_def split_slash_append_slash)
qed

subsection \<open>Trees: the effect of put and del\<close>

lemma parent_ok_alt: "parent_ok t p = (p = [] \<or> dir_at t (butlast p))"
  by (simp add: parent_ok_def dir_at_def)

lemma locate_Inr_parent: "locate t p = Inr m \<Longrightarrow> parent_ok t p"
proof (cases p rule: rev_cases)
  case Nil then show ?thesis by (simp add: parent_ok_def)
next
  case (snoc q c)
  assume "locate t p = Inr m"
  then show ?thesis using snoc
    by (cases "locate t q") (auto simp: parent_ok_def locate_append split: node.splits sum.splits elim: locate.elims)
qed

lemma parent_ok_not_dir:
  "\<not> parent_ok (File b) (c # cs)" "\<not> parent_ok (Symlink x) (c # cs)"
  by (cases cs; simp add: parent_ok_def)+

lemma locate_put_same: "parent_ok t p \<Longrightarrow> locate (put t p v) p = Inr v"
proof (induction t p v rule: put.induct)
  case (1 n v) show ?case by simp
next
  case (2 es c cs v)
  show ?case
  proof (cases cs)
    case Nil then show ?thesis by (auto simp: map_of_set_entry split: option.splits)
  next
    case (Cons d ds)
    then obtain m where m: "map_of es c = Some m" and po: "parent_ok m cs"
      using 2(2) by (auto simp: parent_ok_def split: option.splits sum.splits)
    then show ?thesis using 2(1)[OF m po] by (simp add: map_of_set_entry)
  qed
qed (auto simp: parent_ok_not_dir)

lemma locate_put_below: "parent_ok t p \<Longrightarrow> locate (put t p v) (p @ r) = locate v r"
  by (simp add: locate_append locate_put_same)

lemma locate_put_other:
  "\<not> prefix p q \<Longrightarrow> \<not> prefix q p \<Longrightarrow> locate (put t p v) q = locate t q"
proof (induction t p v arbitrary: q rule: put.induct)
  case (1 n v) then show ?case by simp
next
  case (2 es c cs v)
  then obtain d ds where q: "q = d # ds" by (cases q) auto
  show ?case
  proof (cases "d = c")
    case False
    then show ?thesis using q by (auto simp: map_of_set_entry split: option.splits)
  next
    case True
    then have np: "\<not> prefix cs ds" "\<not> prefix ds cs" using 2(2,3) q by auto
    show ?thesis using True q np 2(1)[OF _ np]
      by (auto simp: map_of_set_entry split: option.splits)
  qed
qed auto

lemma map_of_filter_fst: "map_of (filter (\<lambda>e. fst e \<noteq> c) es) = (map_of es)(c := None)"
  by (induction es) (auto simp: fun_eq_iff)

lemma locate_del_other:
  "\<not> prefix p q \<Longrightarrow> \<not> prefix q p \<Longrightarrow> locate (del t p) q = locate t q"
proof (induction t p arbitrary: q rule: del.induct)
  case (1 n) then show ?case by simp
next
  case (2 es c cs)
  then obtain d ds where q: "q = d # ds" by (cases q) auto
  show ?case
  proof (cases "d = c")
    case False
    then show ?thesis using q by (auto simp: map_of_set_entry map_of_filter_fst split: option.splits)
  next
    case True
    then have np: "\<not> prefix cs ds" "\<not> prefix ds cs" using 2(2,3) q by auto
    then have "cs \<noteq> []" by auto
    then show ?thesis using True q np 2(1)[OF _ _ np]
      by (auto simp: map_of_set_entry split: option.splits)
  qed
qed auto

lemma dir_at_del_above:
  "strict_prefix q p \<Longrightarrow> dir_at (del t p) q = dir_at t q"
proof (induction t p arbitrary: q rule: del.induct)
  case (1 n) then show ?case by simp
next
  case (2 es c cs)
  show ?case
  proof (cases q)
    case Nil then show ?thesis by (auto simp: dir_at_def split: option.splits)
  next
    case (Cons d ds)
    then have dc: "d = c" and sp: "strict_prefix ds cs" using 2(2) by (auto simp: strict_prefix_def)
    then have ne: "cs \<noteq> []" by auto
    show ?thesis
    proof (cases "map_of es c")
      case None then show ?thesis using Cons dc sp ne
        by (auto simp: dir_at_def map_of_set_entry strict_prefix_def split: option.splits)
    next
      case (Some m)
      then show ?thesis using Cons dc ne 2(1)[OF ne Some sp]
        by (auto simp: dir_at_def map_of_set_entry)
    qed
  qed
qed (auto simp: dir_at_def)

lemma locate_del_below: "p \<noteq> [] \<Longrightarrow> \<exists>e. locate (del t p) (p @ r) = Inl e"
proof (induction t p rule: del.induct)
  case (2 es c cs)
  show ?case
  proof (cases "cs = []")
    case True then show ?thesis by (simp add: map_of_filter_fst)
  next
    case False
    then show ?thesis using 2(1) by (auto simp: map_of_set_entry split: option.splits)
  qed
qed auto

lemma link_free_set_entry:
  "link_free_entries es \<Longrightarrow> link_free v \<Longrightarrow> link_free_entries (set_entry c v es)"
  by (induction es) auto

lemma link_free_filter: "link_free_entries es \<Longrightarrow> link_free_entries (filter P es)"
  by (induction es) auto

lemma link_free_put: "link_free t \<Longrightarrow> link_free v \<Longrightarrow> link_free (put t p v)"
proof (induction t p v rule: put.induct)
  case (2 es c cs v)
  then show ?case
    by (auto split: option.splits intro!: link_free_set_entry dest: link_free_entries_map_of)
qed auto

lemma link_free_del: "link_free t \<Longrightarrow> link_free (del t p)"
proof (induction t p rule: del.induct)
  case (2 es c cs)
  then show ?case
    by (auto split: option.splits intro!: link_free_set_entry link_free_filter dest: link_free_entries_map_of)
qed auto

lemma is_dir_put: "is_dir t \<Longrightarrow> p \<noteq> [] \<Longrightarrow> is_dir (put t p v)"
  by (cases t; cases p) (auto simp: is_dir_def split: option.splits)

lemma is_dir_del: "is_dir t \<Longrightarrow> is_dir (del t p)"
  by (cases t; cases p) (auto simp: is_dir_def split: option.splits)

subsection \<open>MkdirAll on a well-formed store\<close>

lemma dir_at_prefix: "dir_at t (p @ r) \<Longrightarrow> dir_at t p"
proof (cases r)
  case Nil assume "dir_at t (p @ r)" then show ?thesis using Nil by simp
next
  case (Cons c cs)
  assume "dir_at t (p @ r)"
  then show ?thesis using Cons
    by (cases "locate t p") (auto simp: dir_at_def locate_append split: node.splits sum.splits)
qed

lemma locate_put_new_dir:
  assumes "dir_at t cur" "locate t (cur @ [c]) = Inl ENOENT" "\<not> prefix q (cur @ [c])"
  shows "locate (put t (cur @ [c]) (Dir [])) q = locate t q"
proof (cases "prefix (cur @ [c]) q")
  case True
  then obtain r where r: "q = (cur @ [c]) @ r" by (auto simp: prefix_def)
  then have rn: "r \<noteq> []" using assms(3) by auto
  have po: "parent_ok t (cur @ [c])" using assms(1) by (simp add: parent_ok_alt)
  have a: "locate (put t (cur @ [c]) (Dir [])) q = locate (Dir []) r"
    unfolding r by (rule locate_put_below[OF po])
  have b: "locate t q = Inl ENOENT" unfolding r using assms(2) by (subst locate_append) simp
  show ?thesis using a b rn by (cases r) auto
next
  case False
  then show ?thesis using assms(3) by (simp add: locate_put_other)
qed

lemma dir_at_is_dir: "dir_at t [] = is_dir t"
  by (simp add: dir_at_def is_dir_def split: node.splits)

lemma mkdirs_plain:
  assumes "link_free t" "list_all plain cs" "mkdirs t cur cs = Inr t'"
  shows "link_free t' \<and> (is_dir t \<longrightarrow> is_dir t') \<and> dir_at t' (cur @ cs)
       \<and> (\<forall>q. \<not> prefix q (cur @ cs) \<longrightarrow> locate t' q = locate t q)
       \<and> (\<forall>q b. locate t q = Inr (File b) \<longrightarrow> locate t' q = Inr (File b))"
  using assms
proof (induction cs arbitrary: t cur)
  case Nil
  then show ?case by (auto simp: get_locate dir_at_def split: sum.splits node.splits)
next
  case (Cons c cs)
  have pcs: "list_all plain cs" using Cons.prems(2) by simp
  have pc: "c \<noteq> []" "c \<noteq> ''.''" "c \<noteq> ''..''"
    using Cons.prems(2) by (auto simp: plain_def)
  obtain es where es: "locate t cur = Inr (Dir es)"
    using Cons.prems(3) by (auto simp: get_locate split: sum.splits node.splits)
  then have da: "dir_at t cur" by (simp add: dir_at_def)
  have lfes: "link_free (Dir es)" using es Cons.prems(1) link_free_locate by blast
  show ?case
  proof (cases "map_of es c")
    case None
    let ?t1 = "put t (cur @ [c]) (Dir [])"
    have m: "mkdirs ?t1 (cur @ [c]) cs = Inr t'"
      using Cons.prems(3) es None pc by (simp add: get_locate)
    have lf1: "link_free ?t1" using Cons.prems(1) by (simp add: link_free_put)
    note ih = Cons.IH[OF lf1 pcs m]
    have miss: "locate t (cur @ [c]) = Inl ENOENT" using es None by (simp add: locate_append)
    have st: "\<And>q. \<not> prefix q (cur @ [c]) \<Longrightarrow> locate ?t1 q = locate t q"
      using locate_put_new_dir[OF da miss] by blast
    have keep: "\<And>q b. locate t q = Inr (File b) \<Longrightarrow> locate ?t1 q = Inr (File b)"
    proof -
      fix q b assume f: "locate t q = Inr (File b)"
      have "\<not> prefix q (cur @ [c])"
      proof
        assume "prefix q (cur @ [c])"
        then consider "q = cur @ [c]" | "prefix q cur" by (auto simp: prefix_snoc)
        then show False
        proof cases
          case 1 then show ?thesis using f miss by simp
        next
          case 2
          then obtain r where "cur = q @ r" by (auto simp: prefix_def)
          then have "dir_at t q" using da dir_at_prefix by blast
          then show ?thesis using f by (simp add: dir_at_def)
        qed
      qed
      then show "locate ?t1 q = Inr (File b)" using st f by simp
    qed
    have "\<And>q. \<not> prefix q (cur @ c # cs) \<Longrightarrow> \<not> prefix q (cur @ [c])"
      by (metis append.assoc append_Cons append_Nil prefix_def prefix_order.trans prefixI)
    then show ?thesis using ih st keep
      by (auto simp: is_dir_put)
  next
    case (Some m)
    have lm: "link_free m" using lfes Some link_free_entries_map_of by auto
    then have m': "mkdirs t (cur @ [c]) cs = Inr t'"
      using Cons.prems(3) es Some pc by (cases m) (auto simp: get_locate)
    note ih = Cons.IH[OF Cons.prems(1) pcs m']
    then show ?thesis by simp
  qed
qed

subsection \<open>System calls on clean absolute paths\<close>

lemma namei_plain:
  assumes "wf_tree t" "list_all plain cs"
  shows "namei t (path_string cs) fl =
           (case locate t cs of Inr m \<Rightarrow> Inr cs
            | Inl e \<Rightarrow> if parent_ok t cs then Inr cs else Inl e)"
proof -
  obtain es where t: "t = Dir es" using assms(1) by (cases t) (auto simp: wf_tree_def is_dir_def)
  have lf: "link_free t" using assms(1) by (simp add: wf_tree_def)
  have f0: "locate t [] = Inr t" by simp
  show ?thesis
  proof (cases "cs = []")
    case True
    then show ?thesis using t by (simp add: namei_def path_string_def)
  next
    case False
    then have "namei t (path_string cs) fl = resolve 40 t [] cs fl"
      using assms(2) t by (simp add: namei_def split_path_string) (simp add: path_string_def)
    then show ?thesis using resolve_plain[OF lf assms(2) f0, of 40 fl]
      by (auto split: sum.splits)
  qed
qed

lemma locate_missing_ENOENT: "parent_ok t cs \<Longrightarrow> locate t cs = Inl e \<Longrightarrow> e = ENOENT"
proof (cases cs rule: rev_cases)
  case Nil assume "locate t cs = Inl e" then show ?thesis using Nil by simp
next
  case (snoc q c)
  assume "parent_ok t cs" "locate t cs = Inl e"
  then show ?thesis using snoc
    by (auto simp: parent_ok_def locate_append split: sum.splits node.splits option.splits)
qed

lemma lookup_plain:
  assumes "wf_tree (tree s)" "list_all plain cs"
  shows "lookup s (path_string cs) fl =
           (case locate (tree s) cs of Inl e \<Rightarrow> Inl e | Inr m \<Rightarrow> Inr (cs, m))"
  using assms by (auto simp: lookup_def namei_plain get_locate split: sum.splits
      dest: locate_missing_ENOENT)

lemma wf_put: "wf_tree t \<Longrightarrow> link_free v \<Longrightarrow> p \<noteq> [] \<Longrightarrow> wf_tree (put t p v)"
  by (simp add: wf_tree_def is_dir_put link_free_put)

lemma wf_del: "wf_tree t \<Longrightarrow> wf_tree (del t p)"
  by (simp add: wf_tree_def is_dir_del link_free_del)

lemma os_MkdirAll_plain:
  assumes "wf_tree (tree s)" "list_all plain P" "os_MkdirAll s (path_string P) = (None, s1)"
  shows "wf_tree (tree s1) \<and> dir_at (tree s1) P
       \<and> (\<forall>q. \<not> prefix q P \<longrightarrow> locate (tree s1) q = locate (tree s) q)
       \<and> (\<forall>q b. locate (tree s) q = Inr (File b) \<longrightarrow> locate (tree s1) q = Inr (File b))
       \<and> s1 = s\<lparr>tree := tree s1\<rparr>"
proof -
  obtain es where t: "tree s = Dir es"
    using assms(1) by (cases "tree s") (auto simp: wf_tree_def is_dir_def)
  have lf: "link_free (tree s)" and isd: "is_dir (tree s)"
    using assms(1) by (simp_all add: wf_tree_def)
  have sp: "mkdirs (tree s) [] (split_slash (path_string P)) = mkdirs (tree s) [] P"
    using assms(2) t by (cases P) (auto simp: split_path_string)
  obtain t' where m: "mkdirs (tree s) [] P = Inr t'" and s1: "s1 = s\<lparr>tree := t'\<rparr>"
    using assms(3) sp
    by (auto simp: os_MkdirAll_def path_string_def split: option.splits sum.splits)
  show ?thesis using mkdirs_plain[OF lf assms(2) m] s1 isd by (simp add: wf_tree_def)
qed

lemma os_MkdirAll_fail: "os_MkdirAll s p = (Some e, s1) \<Longrightarrow> s1 = s"
  by (auto simp: os_MkdirAll_def split: option.splits sum.splits if_splits)

lemma os_Create_plain:
  assumes "wf_tree (tree s)" "list_all plain S" "os_Create s (path_string S) = (Inr fw, s2)"
  shows "fw = S \<and> S \<noteq> [] \<and> parent_ok (tree s) S \<and> \<not> dir_at (tree s) S
       \<and> s2 = s\<lparr>tree := put (tree s) S (File [])\<rparr>"
proof -
  have isd: "dir_at (tree s) []" using assms(1) by (simp add: wf_tree_def dir_at_is_dir)
  have n: "namei (tree s) (path_string S) True = Inr S"
    and rest: "\<not> dir_at (tree s) S \<and> s2 = s\<lparr>tree := put (tree s) S (File [])\<rparr> \<and> fw = S"
    using assms(3) namei_plain[OF assms(1,2), of True]
    by (auto simp: os_Create_def get_locate dir_at_def
        split: option.splits sum.splits if_splits node.splits)
  have "parent_ok (tree s) S"
    using n namei_plain[OF assms(1,2), of True] locate_Inr_parent[of "tree s" S]
    by (auto split: sum.splits if_splits)
  moreover have "S \<noteq> []" using rest isd by auto
  ultimately show ?thesis using rest by simp
qed

lemma os_Create_fail: "os_Create s p = (Inl e, s2) \<Longrightarrow> s2 = s"
  by (auto simp: os_Create_def split: option.splits sum.splits node.splits)

lemma file_Write_ok:
  assumes "file_Write s fw bs = (None, s3)"
  shows "\<exists>old. locate (tree s) fw = Inr (File old) \<and> s3 = s\<lparr>tree := put (tree s) fw (File (old @ bs))\<rparr>"
  using assms
  by (auto simp: file_Write_def get_locate split: option.splits sum.splits node.splits)

lemma locate_below_file: "locate t S = Inr (File b) \<Longrightarrow> r \<noteq> [] \<Longrightarrow> locate t (S @ r) = Inl ENOTDIR"
  by (cases r) (auto simp: locate_append)

lemma dir_at_not_below_file:
  assumes "locate t S = Inr (File b)" "dir_at t q"
  shows "\<not> prefix S q"
proof
  assume "prefix S q"
  then obtain r where r: "q = S @ r" by (auto simp: prefix_def)
  show False
  proof (cases "r = []")
    case True then show ?thesis using assms r by (simp add: dir_at_def)
  next
    case False
    then show ?thesis using locate_below_file[OF assms(1) False] assms(2) r by (simp add: dir_at_def)
  qed
qed

lemma dir_at_del_file:
  assumes "locate t S = Inr (File b)" "dir_at t q"
  shows "dir_at (del t S) q"
proof -
  have np: "\<not> prefix S q" using assms by (rule dir_at_not_below_file)
  show ?thesis
  proof (cases "prefix q S")
    case True
    then have "strict_prefix q S" using np by (auto simp: strict_prefix_def)
    then show ?thesis using assms(2) by (simp add: dir_at_del_above)
  next
    case False
    then show ?thesis using np assms(2) by (simp add: dir_at_def locate_del_other)
  qed
qed

lemma os_Rename_file:
  assumes "wf_tree (tree s)" "list_all plain S" "list_all plain C"
    and "locate (tree s) S = Inr (File bs)"
    and "os_Rename s (path_string S) (path_string C) = (None, s4)"
  shows "(S = C \<and> s4 = s) \<or>
         (S \<noteq> C \<and> C \<noteq> [] \<and> parent_ok (tree s) C \<and> \<not> dir_at (tree s) C
          \<and> s4 = s\<lparr>tree := put (del (tree s) S) C (File bs)\<rparr>)"
proof -
  have lk: "lookup s (path_string S) False = Inr (S, File bs)"
    using assms(1,2,4) by (simp add: lookup_plain)
  obtain cn where cn: "namei (tree s) (path_string C) False = Inr cn"
    using assms(5) lk by (auto simp: os_Rename_def split: option.splits sum.splits)
  have cnC: "cn = C" using cn namei_plain[OF assms(1,3), of False]
    by (auto split: sum.splits if_splits)
  have po: "parent_ok (tree s) C"
    using cn namei_plain[OF assms(1,3), of False] locate_Inr_parent[of "tree s" C]
    by (auto split: sum.splits if_splits)
  show ?thesis
  proof (cases "S = C")
    case True
    then show ?thesis using assms(5) lk cn cnC
      by (auto simp: os_Rename_def split: option.splits)
  next
    case False
    then show ?thesis using assms(5) lk cn cnC po
      by (auto simp: os_Rename_def get_locate dir_at_def
          split: option.splits sum.splits if_splits node.splits list.splits)
  qed
qed

lemma locate_after_rename:
  assumes "locate t S = Inr (File bs)" "C \<noteq> []" "parent_ok t C"
  shows "locate (put (del t S) C v) C = Inr v"
proof -
  have "dir_at t (butlast C)" using assms(2,3) by (simp add: parent_ok_alt)
  then have "dir_at (del t S) (butlast C)" using assms(1) by (rule dir_at_del_file[rotated])
  then have "parent_ok (del t S) C" by (simp add: parent_ok_alt)
  then show ?thesis by (rule locate_put_same)
qed

subsection \<open>WriteSync and the rename, when they succeed\<close>

lemma file_incomparable:
  assumes "locate t q = Inr (File b)" "q \<noteq> S" "parent_ok t S" "\<not> dir_at t S"
  shows "\<not> prefix S q \<and> \<not> prefix q S"
proof
  show "\<not> prefix S q"
  proof
    assume "prefix S q"
    then obtain r where r: "q = S @ r" "r \<noteq> []" using assms(2) by (auto simp: prefix_def)
    then obtain c cs where rc: "r = c # cs" by (cases r) auto
    have "locate t (S @ r) = Inr (File b)" using assms(1) r by simp
    then have "dir_at t S" unfolding rc
      by (cases "locate t S") (auto simp: locate_append dir_at_def split: node.splits elim: locate.elims)
    then show False using assms(4) by simp
  qed
next
  show "\<not> prefix q S"
  proof
    assume "prefix q S"
    then have sp: "prefix q (butlast S)" and "S \<noteq> []"
      using assms(2) by (auto simp: prefix_def butlast_append)
    then have "dir_at t (butlast S)" using assms(3) by (simp add: parent_ok_alt)
    then show False using dir_at_not_below_file[OF assms(1)] sp by blast
  qed
qed

lemma WriteSync_ok:
  assumes wf: "wf_tree (tree s)" and pl: "list_all plain S" and ne: "S \<noteq> []"
    and ws: "WriteSync (path_string S) data s = (None, s3)"
  shows "wf_tree (tree s3)
       \<and> (\<exists>bs. locate (tree s3) S = Inr (File bs) \<and> (\<forall>b r. data = Stream b r \<longrightarrow> bs = b))
       \<and> (\<forall>q b. locate (tree s) q = Inr (File b) \<longrightarrow> q \<noteq> S \<longrightarrow> locate (tree s3) q = Inr (File b))
       \<and> (\<forall>q. \<not> prefix q S \<longrightarrow> \<not> prefix S q \<longrightarrow> locate (tree s3) q = locate (tree s) q)
       \<and> fault s3 = fault s \<and> dir_size s3 = dir_size s \<and> short_write s3 = short_write s"
proof -
  obtain P x where S: "S = P @ [x]" using ne by (cases S rule: rev_cases) auto
  have plP: "list_all plain P" using pl S by simp
  have dir: "path_Dir (path_string S) = path_string P"
    unfolding S using pl S by (intro path_Dir_path_string) simp
  obtain s1 where mk: "os_MkdirAll s (path_string P) = (None, s1)"
    using ws dir by (auto simp: WriteSync_def errors_Wrapf_def split: prod.splits option.splits)
  note m = os_MkdirAll_plain[OF wf plP mk]
  have wf1: "wf_tree (tree s1)" using m by simp
  obtain fw s2 where cr: "os_Create s1 (path_string S) = (Inr fw, s2)"
    using ws dir mk
    by (auto simp: WriteSync_def errors_Wrapf_def split: prod.splits option.splits sum.splits)
  note c = os_Create_plain[OF wf1 pl cr]
  have fw: "fw = S" and s2: "s2 = s1\<lparr>tree := put (tree s1) S (File [])\<rparr>"
    and po1: "parent_ok (tree s1) S" and nd1: "\<not> dir_at (tree s1) S"
    using c by simp_all
  have wf2: "wf_tree (tree s2)" using wf1 s2 ne by (simp add: wf_put)
  have f2: "locate (tree s2) S = Inr (File [])" using s2 po1 by (simp add: locate_put_same)
  have po2: "parent_ok (tree s2) S" using f2 by (rule locate_Inr_parent)
  obtain e3 where cp: "io_Copy s2 S data = (None, s3)"
    using ws dir mk cr fw
    by (auto simp: WriteSync_def errors_Wrapf_def split: prod.splits option.splits sum.splits)
  obtain bs where wr: "file_Write s2 S bs = (None, s3)"
    and bsd: "\<forall>b r. data = Stream b r \<longrightarrow> bs = b"
    using cp by (cases data) (auto simp: io_Copy_def split: prod.splits option.splits sum.splits)
  have s3: "s3 = s2\<lparr>tree := put (tree s2) S (File bs)\<rparr>"
    using file_Write_ok[OF wr] f2 by auto
  have wf3: "wf_tree (tree s3)" using wf2 s3 ne by (simp add: wf_put)
  have f3: "locate (tree s3) S = Inr (File bs)" using s3 po2 by (simp add: locate_put_same)
  have other: "\<And>q. \<not> prefix q S \<Longrightarrow> \<not> prefix S q \<Longrightarrow> locate (tree s3) q = locate (tree s) q"
  proof -
    fix q assume a: "\<not> prefix q S" "\<not> prefix S q"
    then have "\<not> prefix q P" unfolding S by (auto simp: prefix_def)
    then have "locate (tree s1) q = locate (tree s) q" using m by simp
    then show "locate (tree s3) q = locate (tree s) q"
      using a s3 s2 by (simp add: locate_put_other)
  qed
  have files: "\<And>q b. locate (tree s) q = Inr (File b) \<Longrightarrow> q \<noteq> S \<Longrightarrow> locate (tree s3) q = Inr (File b)"
  proof -
    fix q b assume a: "locate (tree s) q = Inr (File b)" "q \<noteq> S"
    then have f1: "locate (tree s1) q = Inr (File b)" using m by simp
    have "\<not> prefix S q \<and> \<not> prefix q S" using file_incomparable[OF f1 a(2) po1 nd1] .
    then show "locate (tree s3) q = Inr (File b)" using f1 s3 s2 by (simp add: locate_put_other)
  qed
  have env: "fault s3 = fault s \<and> dir_size s3 = dir_size s \<and> short_write s3 = short_write s"
    using s3 s2 m by (metis (no_types, lifting) os_state.select_convs os_state.surjective os_state.update_convs(1))
  show ?thesis using wf3 f3 bsd other files env by blast
qed

lemma final_string: "abs_root fs \<Longrightarrow> path_Join (root fs) name = path_string (final_path fs name)"
  by (simp add: abs_root_def final_path_def path_Join_abs)

lemma staging_string:
  "abs_root fs \<Longrightarrow> path_Join (root fs) (name @ ''.tmp'') = path_string (staging_path fs name)"
  by (simp add: staging_path_def final_string)

lemma final_plain: "list_all plain (final_path fs name)"
  by (simp add: final_path_def clean_path_plain)

lemma staging_plain: "list_all plain (staging_path fs name)"
  by (simp add: staging_path_def final_plain)

lemma staging_nonempty: "staging_path fs name \<noteq> []"
  by (simp add: staging_path_def final_path_def clean_path_tmp)

lemma files_incomparable:
  assumes "locate t a = Inr (File x)" "locate t b = Inr (File y)" "a \<noteq> b"
  shows "\<not> prefix a b \<and> \<not> prefix b a"
proof -
  have "\<And>a b x y. locate t a = Inr (File x) \<Longrightarrow> locate t b = Inr (File y) \<Longrightarrow> a \<noteq> b \<Longrightarrow> \<not> prefix a b"
  proof
    fix a b :: path and x y assume h: "locate t a = Inr (File x)" "locate t b = Inr (File y)" "a \<noteq> b" "prefix a b"
    then obtain r where "b = a @ r" "r \<noteq> []" by (auto simp: prefix_def)
    then show False using locate_below_file[OF h(1), of r] h(2) by simp
  qed
  then show ?thesis using assms by metis
qed

lemma publish_ok:
  assumes wf: "wf_tree (tree s)" and pl: "list_all plain S" and ne: "S \<noteq> []"
    and plC: "list_all plain C"
    and ws: "WriteSync (path_string S) data s = (None, s3)"
    and rn: "os_Rename s3 (path_string S) (path_string C) = (None, s')"
  shows "wf_tree (tree s')
       \<and> (\<exists>bs. locate (tree s') C = Inr (File bs) \<and> (\<forall>b r. data = Stream b r \<longrightarrow> bs = b))
       \<and> (\<forall>q b. locate (tree s) q = Inr (File b) \<longrightarrow> q \<noteq> S \<longrightarrow> q \<noteq> C
              \<longrightarrow> locate (tree s') q = Inr (File b))
       \<and> fault s' = fault s \<and> dir_size s' = dir_size s \<and> short_write s' = short_write s"
proof -
  note w = WriteSync_ok[OF wf pl ne ws]
  obtain bs where f3: "locate (tree s3) S = Inr (File bs)"
    and bsd: "\<forall>b r. data = Stream b r \<longrightarrow> bs = b" using w by blast
  have wf3: "wf_tree (tree s3)" using w by simp
  have files3: "\<And>q b. locate (tree s) q = Inr (File b) \<Longrightarrow> q \<noteq> S \<Longrightarrow> locate (tree s3) q = Inr (File b)"
    using w by blast
  have env3: "fault s3 = fault s \<and> dir_size s3 = dir_size s \<and> short_write s3 = short_write s"
    using w by blast
  note r = os_Rename_file[OF wf3 pl plC f3 rn]
  show ?thesis
  proof (cases "S = C")
    case True
    then have "s' = s3" using r by auto
    then show ?thesis using True wf3 f3 bsd files3 env3 by auto
  next
    case False
    then have Cn: "C \<noteq> []" and po: "parent_ok (tree s3) C" and nd: "\<not> dir_at (tree s3) C"
      and s': "s' = s3\<lparr>tree := put (del (tree s3) S) C (File bs)\<rparr>"
      using r by auto
    have wf': "wf_tree (tree s')" using s' wf3 Cn by (simp add: wf_put wf_del)
    have fC: "locate (tree s') C = Inr (File bs)"
      using s' locate_after_rename[OF f3 Cn po] by simp
    have files: "\<And>q b. locate (tree s) q = Inr (File b) \<Longrightarrow> q \<noteq> S \<Longrightarrow> q \<noteq> C
              \<Longrightarrow> locate (tree s') q = Inr (File b)"
    proof -
      fix q b assume a: "locate (tree s) q = Inr (File b)" "q \<noteq> S" "q \<noteq> C"
      then have fq: "locate (tree s3) q = Inr (File b)" using files3 by simp
      have i1: "\<not> prefix S q \<and> \<not> prefix q S" using files_incomparable[OF f3 fq] a(2) by auto
      have i2: "\<not> prefix C q \<and> \<not> prefix q C" using file_incomparable[OF fq a(3) po nd] .
      show "locate (tree s') q = Inr (File b)"
        using s' i1 i2 fq by (simp add: locate_put_other locate_del_other)
    qed
    have env: "fault s' = fault s \<and> dir_size s' = dir_size s \<and> short_write s' = short_write s"
      using env3 s' by simp
    show ?thesis using wf' fC bsd files env by blast
  qed
qed

lemma Save_None:
  assumes "abs_root fs" "Save fs name data sz s = (None, s')"
  shows "\<exists>s3. WriteSync (path_string (staging_path fs name)) data s = (None, s3)
       \<and> os_Rename s3 (path_string (staging_path fs name)) (path_string (final_path fs name)) = (None, s')"
  using assms
  by (auto simp: Save_def Let_def staging_path_def final_string errors_Wrapf_def
      split: prod.splits option.splits)

lemma read_file:
  assumes "wf_tree (tree s)" "abs_root fs" "locate (tree s) (final_path fs name) = Inr (File bs)"
    "fault s SysOpen = None" "fault s SysRead = None"
  shows "SourceReader fs name s = Inr (FileReader (final_path fs name))
       \<and> reader_ReadAll s (FileReader (final_path fs name)) = Inr bs"
  using assms
  by (simp add: SourceReader_def final_string os_Open_def lookup_plain final_plain
      reader_ReadAll_def file_ReadAll_def get_locate)

subsection \<open>Delete\<close>

text \<open>
  \<open>os.RemoveAll\<close> reports a missing path as success, so the test
  \<open>os.IsNotExist(err)\<close> in \<open>Delete\<close> can only fire on an injected fault.
\<close>

lemma Delete_never_NotFound:
  "fault s SysRemoveAll \<noteq> Some ENOENT \<Longrightarrow> fst (Delete fs name s) \<noteq> Some ErrNotExist"
  by (auto simp: Delete_def os_RemoveAll_def os_Remove_def
      split: option.splits prod.splits if_splits sum.splits node.splits list.splits)

text \<open>
  C3. The claim, and the doc comment of \<open>Delete\<close> ("It returns
  storage.ErrNotExist if a file isn't exists"): \<open>delete(name)\<close> fails with NotFound
  where nothing exists at the name, also on the second of two deletes. The code does
  not: in the example store nothing exists at \<open>nope\<close>, and \<open>Delete\<close> returns
  \<open>nil\<close> there; deleting \<open>db/coll.bson\<close> returns \<open>nil\<close>, and so does
  deleting it again.
\<close>

theorem Delete_missing_returns_nil:
  "lookup ex_state (path_Join (root ex_fs) ''nope'') False = Inl ENOENT
   \<and> fst (Delete ex_fs ''nope'' ex_state) = None
   \<and> fst (Delete ex_fs ''db/coll.bson'' ex_state) = None
   \<and> fst (Delete ex_fs ''db/coll.bson'' (snd (Delete ex_fs ''db/coll.bson'' ex_state))) = None"
  by (simp add: ex_defs path_defs lookup_def namei_def Delete_def os_RemoveAll_def os_Remove_def)

subsection \<open>FileStat\<close>

text \<open>
  \<open>FileStat\<close> starts from the empty \<open>storage.FileInfo\<close> and assigns
  \<open>Size\<close> only: whatever it returns carries the empty name. The size it reports
  for a regular file of \<open>S > 0\<close> bytes is \<open>S\<close>, with no error.
\<close>

lemma FileStat_Name_empty: "Name (fst (FileStat fs name s)) = []"
  by (simp add: FileStat_def Let_def split: sum.splits)

lemma FileStat_size:
  assumes "lookup s (path_Join (root fs) name) True = Inr (cp, File bs)"
    and "bs \<noteq> []" and "fault s SysStat = None"
  shows "Size (fst (FileStat fs name s)) = int (length bs) \<and> snd (FileStat fs name s) = None"
  using assms by (simp add: FileStat_def os_Stat_def node_info_def)

text \<open>
  C4. The claim: \<open>stat\<close> of an existing object of \<open>S > 0\<close> bytes succeeds and
  returns a \<open>FileInfo\<close> with the given name and the size \<open>S\<close>. The code
  returns the size and misses the name: for the eleven bytes at \<open>db/coll.bson\<close>
  \<open>FileStat\<close> succeeds with size 11 and the empty name, where \<open>List\<close> on the
  same store fills the name of the same file.
\<close>

theorem FileStat_name_not_set:
  "lookup ex_state (path_Join (root ex_fs) ''db/coll.bson'') True
     = Inr ([''data'', ''db'', ''coll.bson''], File hello_world)
   \<and> length hello_world = 11
   \<and> FileStat ex_fs ''db/coll.bson'' ex_state = (\<lparr>Name = [], Size = 11\<rparr>, None)
   \<and> Name (fst (FileStat ex_fs ''db/coll.bson'' ex_state)) \<noteq> ''db/coll.bson''
   \<and> List ex_fs ''db'' ''.bson'' ex_state = ([\<lparr>Name = ''coll.bson'', Size = 11\<rparr>], None)"
  by (simp add: ex_defs path_defs lookup_def namei_def FileStat_def os_Stat_def node_info_def
      List_def filepath_WalkDir_def list_visit_def filepath_Join_def filepath_ToSlash_def
      strings_TrimPrefix_def strings_HasSuffix_def os_Lstat_def)

subsection \<open>Copy from a missing source\<close>

text \<open>
  C10, as claimed, for every source name at which no object exists: \<open>Copy\<close>
  returns a wrapped open failure, \<open>SourceReader\<close> returns exactly
  \<open>storage.ErrNotExist\<close>, and so a caller cannot tell a missing copy source by
  the error. Both fail. Nothing exists at \<open>db/coll.bson/x\<close>, below the regular
  file \<open>db/coll.bson\<close>; the filesystem answers \<open>ENOTDIR\<close> there, and
  \<open>SourceReader\<close> returns that error wrapped, not \<open>storage.ErrNotExist\<close>.
  And the error \<open>Copy\<close> returns for the missing source \<open>nope\<close> still
  matches \<open>os.ErrNotExist\<close> under \<open>errors.Is\<close>, which its error for
  \<open>db/coll.bson/x\<close> does not: the caller can tell.
\<close>

theorem Copy_missing_src_counterexample:
  "get (tree ex_state) [''data'', ''db'', ''coll.bson'', ''x''] = None
   \<and> lookup ex_state (path_Join (root ex_fs) ''db/coll.bson/x'') True = Inl ENOTDIR
   \<and> SourceReader ex_fs ''db/coll.bson/x'' ex_state
       = Inl (Wrapped (OsError ENOTDIR) (''open file '' @ [CHR 0x27] @ ''/data/db/coll.bson/x'' @ [CHR 0x27]))
   \<and> SourceReader ex_fs ''db/coll.bson/x'' ex_state \<noteq> Inl ErrNotExist
   \<and> fst (Copy ex_fs ''db/coll.bson/x'' ''q'' ex_state) = Some (Wrapped (OsError ENOTDIR) ''open src'')
   \<and> \<not> errors_Is_NotExist (Wrapped (OsError ENOTDIR) ''open src'')
   \<and> fst (Copy ex_fs ''nope'' ''q'' ex_state) = Some (Wrapped (OsError ENOENT) ''open src'')
   \<and> errors_Is_NotExist (Wrapped (OsError ENOENT) ''open src'')"
  by (simp add: ex_defs path_defs lookup_def namei_def Copy_def SourceReader_def os_Open_def
      errors_Wrapf_def)

text \<open>
  C10, amended. Where the filesystem reports that nothing exists at the path of
  \<open>src\<close> (\<open>ENOENT\<close>; \<open>Open\<close> not faulted), \<open>Copy\<close> returns the
  system error wrapped with "open src", which neither is nor wraps the value
  \<open>storage.ErrNotExist\<close>, while \<open>SourceReader\<close> on the same name returns
  exactly \<open>storage.ErrNotExist\<close>: a caller cannot recognise the missing copy source
  by the typed NotFound value, only by \<open>os.ErrNotExist\<close>, which the wrapped error
  still matches. The theorem covers every error \<open>e\<close> of the lookup:
  \<open>Copy\<close> wraps them all alike, and \<open>SourceReader\<close> wraps every one but
  \<open>ENOENT\<close>.
\<close>

theorem Copy_missing_src_is_wrapped:
  assumes "lookup s (path_Join (root fs) src) True = Inl e"
    and "fault s SysOpen = None"
  shows "Copy fs src dst s = (Some (Wrapped (OsError e) ''open src''), s)
       \<and> fst (Copy fs src dst s) \<noteq> Some ErrNotExist
       \<and> \<not> errors_Is_storage_ErrNotExist (Wrapped (OsError e) ''open src'')
       \<and> (errors_Is_NotExist (Wrapped (OsError e) ''open src'') \<longleftrightarrow> e = ENOENT)
       \<and> (e = ENOENT \<longrightarrow> SourceReader fs src s = Inl ErrNotExist)
       \<and> (e \<noteq> ENOENT \<longrightarrow>
            SourceReader fs src s
              = Inl (Wrapped (OsError e)
                      (''open file '' @ [CHR 0x27] @ path_Join (root fs) src @ [CHR 0x27])))"
  using assms by (simp add: Copy_def SourceReader_def os_Open_def errors_Wrapf_def)

theorem Copy_missing_src_is_wrapped_witness:
  "lookup ex_state (path_Join (root ex_fs) ''nope'') True = Inl ENOENT
   \<and> fault ex_state SysOpen = None
   \<and> Copy ex_fs ''nope'' ''q'' ex_state = (Some (Wrapped (OsError ENOENT) ''open src''), ex_state)
   \<and> \<not> errors_Is_storage_ErrNotExist (Wrapped (OsError ENOENT) ''open src'')
   \<and> errors_Is_NotExist (Wrapped (OsError ENOENT) ''open src'')
   \<and> SourceReader ex_fs ''nope'' ex_state = Inl ErrNotExist"
proof -
  have a: "lookup ex_state (path_Join (root ex_fs) ''nope'') True = Inl ENOENT"
    by (simp add: ex_defs path_defs lookup_def namei_def)
  have b: "fault ex_state SysOpen = None" by (simp add: ex_defs)
  show ?thesis using Copy_missing_src_is_wrapped [OF a b, of "''q''"] a b by simp
qed

subsection \<open>Save, then read\<close>

lemmas go_defs = Save_def WriteSync_def errors_Wrapf_def

lemma ex_wf: "wf_tree (tree ex_state)"
  by (simp add: ex_defs wf_tree_def is_dir_def)

lemma ex_abs: "abs_root ex_fs"
  by (simp add: ex_defs abs_root_def)

lemma ex_save: "fst (Save ex_fs ''db/coll.bson'' (Stream [1, 2, 3] None) 3 ex_state) = None"
  by (simp add: ex_defs go_defs path_defs os_defs)

text \<open>
  C2. In a well-formed store under an absolute root, after a successful
  \<open>Save\<close> of the bytes \<open>content\<close> under any name, \<open>SourceReader\<close> of
  that name succeeds and reading its stream to the end yields exactly \<open>content\<close>
  (\<open>Open\<close> and \<open>Read\<close> not faulted). Nothing is assumed about what the name
  held before.
\<close>

theorem Save_round_trip:
  assumes "wf_tree (tree s)" "abs_root fs"
    and "Save fs name (Stream content None) sz s = (None, s')"
    and "fault s SysOpen = None" "fault s SysRead = None"
  shows "\<exists>r. SourceReader fs name s' = Inr r \<and> reader_ReadAll s' r = Inr content"
proof -
  obtain s3 where ws: "WriteSync (path_string (staging_path fs name)) (Stream content None) s = (None, s3)"
    and rn: "os_Rename s3 (path_string (staging_path fs name)) (path_string (final_path fs name)) = (None, s')"
    using Save_None[OF assms(2,3)] by blast
  note p = publish_ok[OF assms(1) staging_plain staging_nonempty final_plain ws rn]
  have "locate (tree s') (final_path fs name) = Inr (File content)" using p by auto
  moreover have "wf_tree (tree s')" "fault s' SysOpen = None" "fault s' SysRead = None"
    using p assms(4,5) by auto
  ultimately show ?thesis using read_file[OF _ assms(2)] by blast
qed

theorem Save_round_trip_witness:
  "wf_tree (tree ex_state) \<and> abs_root ex_fs
   \<and> fst (Save ex_fs ''db/coll.bson'' (Stream [1, 2, 3] None) 3 ex_state) = None
   \<and> fault ex_state SysOpen = None \<and> fault ex_state SysRead = None
   \<and> (\<exists>r. SourceReader ex_fs ''db/coll.bson''
             (snd (Save ex_fs ''db/coll.bson'' (Stream [1, 2, 3] None) 3 ex_state)) = Inr r
          \<and> reader_ReadAll (snd (Save ex_fs ''db/coll.bson'' (Stream [1, 2, 3] None) 3 ex_state)) r
              = Inr [1, 2, 3])"
proof -
  let ?r = "Save ex_fs ''db/coll.bson'' (Stream [1, 2, 3] None) 3 ex_state"
  have a: "?r = (None, snd ?r)" using ex_save by (metis prod.collapse)
  have b: "fault ex_state SysOpen = None" "fault ex_state SysRead = None" by (simp_all add: ex_defs)
  show ?thesis using Save_round_trip[OF ex_wf ex_abs a b] ex_wf ex_abs ex_save b by simp
qed

subsection \<open>FileStat: the empty object and the missing object\<close>

lemma Save_locate:
  assumes "wf_tree (tree s)" "abs_root fs" "Save fs name (Stream content r) sz s = (None, s')"
  shows "wf_tree (tree s') \<and> locate (tree s') (final_path fs name) = Inr (File content)
       \<and> fault s' = fault s \<and> dir_size s' = dir_size s \<and> short_write s' = short_write s"
proof -
  obtain s3 where ws: "WriteSync (path_string (staging_path fs name)) (Stream content r) s = (None, s3)"
    and rn: "os_Rename s3 (path_string (staging_path fs name)) (path_string (final_path fs name)) = (None, s')"
    using Save_None[OF assms(2,3)] by blast
  note p = publish_ok[OF assms(1) staging_plain staging_nonempty final_plain ws rn]
  then show ?thesis by auto
qed

text \<open>
  C5, as claimed: \<open>FileStat\<close> fails with \<open>storage.ErrNotExist\<close> if and only
  if the object is absent. It does not: nothing exists at \<open>db/coll.bson/x\<close>,
  below the regular file \<open>db/coll.bson\<close>, and \<open>FileStat\<close> of that name
  returns the error \<open>ENOTDIR\<close> of the system as it is, not
  \<open>storage.ErrNotExist\<close>.
\<close>

theorem FileStat_below_file_counterexample:
  "get (tree ex_state) [''data'', ''db'', ''coll.bson''] = Some (File hello_world)
   \<and> get (tree ex_state) [''data'', ''db'', ''coll.bson'', ''x''] = None
   \<and> lookup ex_state (path_Join (root ex_fs) ''db/coll.bson/x'') True = Inl ENOTDIR
   \<and> FileStat ex_fs ''db/coll.bson/x'' ex_state = (\<lparr>Name = [], Size = 0\<rparr>, Some (OsError ENOTDIR))
   \<and> snd (FileStat ex_fs ''db/coll.bson/x'' ex_state) \<noteq> Some ErrNotExist"
  by (simp add: ex_defs path_defs lookup_def namei_def FileStat_def os_Stat_def)

text \<open>
  C5, amended. With \<open>Stat\<close> not faulted, \<open>FileStat\<close> fails with
  \<open>storage.ErrEmpty\<close> exactly when a node exists at the path of the name and
  reports size zero, and fails with \<open>storage.ErrNotExist\<close> exactly when the
  filesystem reports that nothing exists there with \<open>ENOENT\<close>; any other error
  of the lookup is returned as it is. On a store of directories and regular files
  under an absolute root this reads on the tree: \<open>storage.ErrNotExist\<close> exactly
  when an element of the path is missing from a directory that exists, and the
  plain \<open>ENOTDIR\<close> when the path runs through a regular file. The state
  \<open>s\<close> reached by a successful \<open>Save\<close> of no bytes under a name makes
  \<open>FileStat\<close> of that name fail with \<open>storage.ErrEmpty\<close>.
\<close>

theorem FileStat_Empty_NotFound:
  assumes "fault s SysStat = None"
  shows "(snd (FileStat fs name s) = Some ErrEmpty \<longleftrightarrow>
            (\<exists>cp n. lookup s (path_Join (root fs) name) True = Inr (cp, n)
                    \<and> FSize (node_info s n) = 0))
       \<and> (snd (FileStat fs name s) = Some ErrNotExist \<longleftrightarrow>
            lookup s (path_Join (root fs) name) True = Inl ENOENT)
       \<and> (\<forall>e. lookup s (path_Join (root fs) name) True = Inl e \<and> e \<noteq> ENOENT \<longrightarrow>
            snd (FileStat fs name s) = Some (OsError e))
       \<and> (wf_tree (tree s) \<and> abs_root fs \<longrightarrow>
            (snd (FileStat fs name s) = Some ErrEmpty \<longleftrightarrow>
               (\<exists>n. locate (tree s) (final_path fs name) = Inr n \<and> FSize (node_info s n) = 0))
          \<and> (snd (FileStat fs name s) = Some ErrNotExist \<longleftrightarrow>
               locate (tree s) (final_path fs name) = Inl ENOENT)
          \<and> (snd (FileStat fs name s) = Some (OsError ENOTDIR) \<longleftrightarrow>
               locate (tree s) (final_path fs name) = Inl ENOTDIR))
       \<and> (\<forall>s0 sz. wf_tree (tree s0) \<and> abs_root fs
              \<and> Save fs name (Stream [] None) sz s0 = (None, s)
            \<longrightarrow> snd (FileStat fs name s) = Some ErrEmpty
              \<and> Size (fst (FileStat fs name s)) = 0)"
proof (intro conjI allI impI)
  show "snd (FileStat fs name s) = Some ErrEmpty \<longleftrightarrow>
            (\<exists>cp n. lookup s (path_Join (root fs) name) True = Inr (cp, n)
                    \<and> FSize (node_info s n) = 0)"
    using assms by (auto simp: FileStat_def os_Stat_def Let_def split: sum.splits)
  show "snd (FileStat fs name s) = Some ErrNotExist \<longleftrightarrow>
            lookup s (path_Join (root fs) name) True = Inl ENOENT"
    using assms by (auto simp: FileStat_def os_Stat_def Let_def split: sum.splits)
next
  fix e assume "lookup s (path_Join (root fs) name) True = Inl e \<and> e \<noteq> ENOENT"
  then show "snd (FileStat fs name s) = Some (OsError e)"
    using assms by (simp add: FileStat_def os_Stat_def Let_def)
next
  assume a: "wf_tree (tree s) \<and> abs_root fs"
  then have lk: "lookup s (path_Join (root fs) name) True =
      (case locate (tree s) (final_path fs name) of Inl e \<Rightarrow> Inl e
       | Inr m \<Rightarrow> Inr (final_path fs name, m))"
    by (simp add: final_string lookup_plain final_plain)
  show "snd (FileStat fs name s) = Some ErrEmpty \<longleftrightarrow>
          (\<exists>n. locate (tree s) (final_path fs name) = Inr n \<and> FSize (node_info s n) = 0)"
    using assms lk by (auto simp: FileStat_def os_Stat_def Let_def split: sum.splits)
  show "snd (FileStat fs name s) = Some ErrNotExist \<longleftrightarrow>
          locate (tree s) (final_path fs name) = Inl ENOENT"
    using assms lk by (auto simp: FileStat_def os_Stat_def Let_def split: sum.splits)
  show "snd (FileStat fs name s) = Some (OsError ENOTDIR) \<longleftrightarrow>
          locate (tree s) (final_path fs name) = Inl ENOTDIR"
    using assms lk by (auto simp: FileStat_def os_Stat_def Let_def split: sum.splits)
next
  fix s0 sz
  assume a: "wf_tree (tree s0) \<and> abs_root fs \<and> Save fs name (Stream [] None) sz s0 = (None, s)"
  then have w: "wf_tree (tree s)" "locate (tree s) (final_path fs name) = Inr (File [])"
    using Save_locate[of s0 fs name "[]" None sz s] by auto
  then show "snd (FileStat fs name s) = Some ErrEmpty"
    using a assms
    by (simp add: FileStat_def os_Stat_def final_string lookup_plain final_plain node_info_def)
  show "Size (fst (FileStat fs name s)) = 0"
    using a assms w
    by (simp add: FileStat_def os_Stat_def final_string lookup_plain final_plain node_info_def)
qed

lemma ex_save_empty: "fst (Save ex_fs ''db/empty'' (Stream [] None) 0 ex_state) = None"
  by (simp add: ex_defs go_defs path_defs os_defs)

theorem FileStat_Empty_NotFound_witness:
  "fault (snd (Save ex_fs ''db/empty'' (Stream [] None) 0 ex_state)) SysStat = None
   \<and> wf_tree (tree ex_state) \<and> abs_root ex_fs
   \<and> fst (Save ex_fs ''db/empty'' (Stream [] None) 0 ex_state) = None
   \<and> snd (FileStat ex_fs ''db/empty'' (snd (Save ex_fs ''db/empty'' (Stream [] None) 0 ex_state)))
       = Some ErrEmpty
   \<and> lookup (snd (Save ex_fs ''db/empty'' (Stream [] None) 0 ex_state))
        (path_Join (root ex_fs) ''db/nope'') True = Inl ENOENT
   \<and> snd (FileStat ex_fs ''db/nope'' (snd (Save ex_fs ''db/empty'' (Stream [] None) 0 ex_state)))
       = Some ErrNotExist
   \<and> wf_tree (tree (snd (Save ex_fs ''db/empty'' (Stream [] None) 0 ex_state)))
   \<and> locate (tree (snd (Save ex_fs ''db/empty'' (Stream [] None) 0 ex_state)))
        (final_path ex_fs ''db/nope'') = Inl ENOENT"
proof -
  let ?r = "Save ex_fs ''db/empty'' (Stream [] None) 0 ex_state"
  have a: "?r = (None, snd ?r)" using ex_save_empty by (metis prod.collapse)
  have f: "fault (snd ?r) = fault ex_state" using Save_locate[OF ex_wf ex_abs a] by simp
  then have b: "fault (snd ?r) SysStat = None" by (simp add: ex_defs)
  have t: "tree (snd ?r) =
     Dir [(''data'', Dir [(''db'', Dir [(''coll.bson'', File hello_world), (''empty'', File [])])])]"
    by (simp add: ex_defs go_defs path_defs os_defs)
  have c: "lookup (snd ?r) (path_Join (root ex_fs) ''db/nope'') True = Inl ENOENT"
  proof -
    have p: "path_Join (root ex_fs) ''db/nope'' = ''/data/db/nope''"
      by (simp add: ex_defs path_defs)
    show ?thesis by (simp add: lookup_def namei_def t p)
  qed
  have d: "snd (FileStat ex_fs ''db/empty'' (snd ?r)) = Some ErrEmpty"
    using FileStat_Empty_NotFound[OF b, of ex_fs "''db/empty''"] a ex_wf ex_abs by blast
  have e: "snd (FileStat ex_fs ''db/nope'' (snd ?r)) = Some ErrNotExist"
    using FileStat_Empty_NotFound[OF b, of ex_fs "''db/nope''"] c by blast
  have w: "wf_tree (tree (snd ?r))" using Save_locate[OF ex_wf ex_abs a] by simp
  have g: "locate (tree (snd ?r)) (final_path ex_fs ''db/nope'') = Inl ENOENT"
    using FileStat_Empty_NotFound[OF b, of ex_fs "''db/nope''"] e w ex_abs by blast
  show ?thesis using a b c d e w g ex_wf ex_abs ex_save_empty by simp
qed

subsection \<open>Save and Copy: a failed write\<close>

lemma same_env_refl [simp]: "same_env s s"
  by (simp add: same_env_def)

lemma same_env_tree [simp]: "same_env s (s'\<lparr>tree := t\<rparr>) = same_env s s'"
  by (simp add: same_env_def)

lemma file_Write_tree:
  "file_Write s fw bs = (r, s') \<Longrightarrow> s' = s \<or> (\<exists>z. s' = s\<lparr>tree := put (tree s) fw (File z)\<rparr>)"
  by (auto simp: file_Write_def split: option.splits node.splits)

lemma io_Copy_tree:
  "io_Copy s fw data = (r, s') \<Longrightarrow> s' = s \<or> (\<exists>z. s' = s\<lparr>tree := put (tree s) fw (File z)\<rparr>)"
  by (cases data) (auto simp: io_Copy_def split: prod.splits option.splits sum.splits dest: file_Write_tree)

lemma WriteSync_any:
  assumes wf: "wf_tree (tree s)" and pl: "list_all plain S" and ne: "S \<noteq> []"
    and ws: "WriteSync (path_string S) data s = (r, s3)"
  shows "wf_tree (tree s3) \<and> same_env s s3
       \<and> (\<forall>q. \<not> prefix q S \<longrightarrow> \<not> prefix S q \<longrightarrow> locate (tree s3) q = locate (tree s) q)"
proof -
  obtain P x where S: "S = P @ [x]" using ne by (cases S rule: rev_cases) auto
  have plP: "list_all plain P" using pl S by simp
  have dir: "path_Dir (path_string S) = path_string P"
    unfolding S using pl S by (intro path_Dir_path_string) simp
  have inc: "\<And>q. \<not> prefix q S \<Longrightarrow> \<not> prefix q P" unfolding S by (auto simp: prefix_def)
  obtain r1 s1 where mk: "os_MkdirAll s (path_string P) = (r1, s1)" by (cases "os_MkdirAll s (path_string P)")
  show ?thesis
  proof (cases r1)
    case (Some e1)
    then have "s1 = s" using mk os_MkdirAll_fail by blast
    then have "s3 = s" using ws mk Some dir by (simp add: WriteSync_def)
    then show ?thesis using wf by simp
  next
    case None
    note m = os_MkdirAll_plain[OF wf plP mk[unfolded None]]
    have wf1: "wf_tree (tree s1)" and env1: "same_env s s1"
      and loc1: "\<And>q. \<not> prefix q P \<Longrightarrow> locate (tree s1) q = locate (tree s) q"
      using m by (auto simp: same_env_def) (metis os_state.select_convs os_state.surjective os_state.update_convs(1))+
    have base: "\<And>z. wf_tree (put (tree s1) S (File z))" using wf1 ne by (simp add: wf_put)
    obtain rc s2 where cr: "os_Create s1 (path_string S) = (rc, s2)" by (cases "os_Create s1 (path_string S)")
    have goal_if: "\<And>s3. s3 = s1 \<or> (\<exists>z. s3 = s1\<lparr>tree := put (tree s1) S (File z)\<rparr>)
        \<or> (\<exists>z z'. s3 = s1\<lparr>tree := put (put (tree s1) S (File z)) S (File z')\<rparr>) \<Longrightarrow>
        wf_tree (tree s3) \<and> same_env s s3
       \<and> (\<forall>q. \<not> prefix q S \<longrightarrow> \<not> prefix S q \<longrightarrow> locate (tree s3) q = locate (tree s) q)"
      using wf1 env1 loc1 inc ne by (auto simp: wf_put locate_put_other)
    show ?thesis
    proof (cases rc)
      case (Inl e)
      then have "s2 = s1" using cr os_Create_fail by blast
      then have "s3 = s1" using ws mk None dir cr Inl by (simp add: WriteSync_def)
      then show ?thesis using goal_if by blast
    next
      case (Inr fw)
      note c = os_Create_plain[OF wf1 pl cr[unfolded Inr]]
      have fw: "fw = S" and s2: "s2 = s1\<lparr>tree := put (tree s1) S (File [])\<rparr>" using c by simp_all
      show ?thesis
      proof (cases "os_Chmod s2 (path_string S)")
        case (Some e)
        then have "s3 = s2" using ws mk None dir cr Inr by (simp add: WriteSync_def)
        then show ?thesis using goal_if s2 by blast
      next
        case None2: None
        obtain r3 s3' where cp: "io_Copy s2 S data = (r3, s3')" by (cases "io_Copy s2 S data")
        have "s3 = s3'" using ws mk None dir cr Inr None2 cp fw
          by (auto simp: WriteSync_def split: option.splits)
        then have "s3 = s2 \<or> (\<exists>z. s3 = s2\<lparr>tree := put (tree s2) S (File z)\<rparr>)"
          using io_Copy_tree[OF cp] by simp
        then show ?thesis using goal_if s2 by auto
      qed
    qed
  qed
qed

lemma os_Remove_plain:
  assumes "wf_tree (tree s)" "list_all plain S" "S \<noteq> []" "os_Remove s (path_string S) = (r, s')"
  shows "(s' = s \<or> s' = s\<lparr>tree := del (tree s) S\<rparr>)
       \<and> (fault s SysRemove = None \<longrightarrow> (\<forall>b. locate (tree s') S \<noteq> Inr (File b)))"
proof -
  have d: "\<exists>e. locate (del (tree s) S) S = Inl e"
    using locate_del_below[OF assms(3), of "tree s" "[]"] by simp
  show ?thesis using assms(3,4) d
    by (auto simp: os_Remove_def lookup_plain[OF assms(1,2)]
        split: option.splits sum.splits node.splits list.splits if_splits)
qed

lemma final_staging_siblings:
  assumes "plain (last (split_slash name))"
  shows "\<exists>P l. final_path fs name = P @ [l] \<and> staging_path fs name = P @ [l @ ''.tmp'']"
proof -
  let ?P = "foldl (clean_step True) (clean_path (root fs)) (butlast (split_slash name))"
  let ?l = "last (split_slash name)"
  have "final_path fs name = ?P @ [?l]"
    using assms by (simp add: final_path_def clean_path_final clean_step_def plain_def)
  moreover have "staging_path fs name = ?P @ [?l @ ''.tmp'']"
    by (simp add: staging_path_def final_path_def clean_path_tmp)
  ultimately show ?thesis by blast
qed

lemma Copy_is_Save:
  "os_Open s (path_Join (root fs) src) = Inr from \<Longrightarrow>
   Copy fs src dst s = Save fs dst (FileReader from) sz s"
  by (simp add: Copy_def Save_def Let_def)

lemma Save_failed_write:
  assumes wf: "wf_tree (tree s)" and ab: "abs_root fs"
    and nm: "plain (last (split_slash name))"
    and ws: "WriteSync (path_Join (root fs) (name @ ''.tmp'')) data s = (Some e, s1)"
  shows "failed_write fs name s (Save fs name data sz s) e s1"
proof -
  let ?S = "staging_path fs name" and ?C = "final_path fs name"
  let ?s' = "snd (Save fs name data sz s)"
  have S: "path_Join (root fs) (name @ ''.tmp'') = path_string ?S" using ab by (rule staging_string)
  have C: "path_Join (root fs) name = path_string ?C" using ab by (rule final_string)
  have r1: "fst (Save fs name data sz s)
           = Some (Wrapped e (''write-sync '' @ path_Dir (path_Join (root fs) (name @ ''.tmp''))))"
    and r2: "?s' = snd (os_Remove s1 (path_Join (root fs) (name @ ''.tmp'')))"
    using ws by (simp_all add: Save_def Let_def errors_Wrapf_def)
  note w = WriteSync_any[OF wf staging_plain staging_nonempty ws[unfolded S]]
  have wf1: "wf_tree (tree s1)" and env1: "same_env s s1" using w by simp_all
  obtain rr where rm: "os_Remove s1 (path_string ?S) = (rr, ?s')"
    using r2 S by (metis prod.collapse)
  note rp = os_Remove_plain[OF wf1 staging_plain staging_nonempty rm]
  have wf': "wf_tree (tree ?s')" using rp wf1 by (auto simp: wf_del)
  obtain P l where sib: "?C = P @ [l]" "?S = P @ [l @ ''.tmp'']"
    using final_staging_siblings[OF nm] by blast
  have inc: "\<not> prefix ?C ?S" "\<not> prefix ?S ?C" unfolding sib by (auto simp: prefix_def)
  have "locate (tree ?s') ?C = locate (tree s1) ?C"
    using rp inc by (auto simp: locate_del_other)
  also have "\<dots> = locate (tree s) ?C" using w inc by simp
  finally have loc: "locate (tree ?s') ?C = locate (tree s) ?C" .
  have r3: "\<forall>fl. lookup ?s' (path_Join (root fs) name) fl = lookup s (path_Join (root fs) name) fl"
    using loc by (simp add: C lookup_plain[OF wf' final_plain] lookup_plain[OF wf final_plain])
  have r4: "fault s SysRemove = None \<longrightarrow>
            (\<forall>cp b. lookup ?s' (path_Join (root fs) (name @ ''.tmp'')) False \<noteq> Inr (cp, File b))"
    using rp env1 by (auto simp: S lookup_plain[OF wf' staging_plain] same_env_def split: sum.splits)
  show ?thesis unfolding failed_write_def using r1 r2 r3 r4 by blast
qed

text \<open>
  The five steps of \<open>WriteSync\<close>: when a step fails after the steps before it
  have succeeded, \<open>WriteSync\<close> returns the error of that step, wrapped with the
  message of the step, and the state reached so far.
\<close>

lemma WriteSync_MkdirAll_fails:
  "os_MkdirAll s (path_Dir fp) = (Some err, s1) \<Longrightarrow>
   WriteSync fp data s = (Some (Wrapped err (''create path '' @ path_Dir fp)), s1)"
  by (simp add: WriteSync_def errors_Wrapf_def)

lemma WriteSync_Create_fails:
  "os_MkdirAll s (path_Dir fp) = (None, s1) \<Longrightarrow> os_Create s1 fp = (Inl err, s2) \<Longrightarrow>
   WriteSync fp data s = (Some (Wrapped err (''create destination file <'' @ fp @ ''>'')), s2)"
  by (simp add: WriteSync_def errors_Wrapf_def)

lemma WriteSync_Chmod_fails:
  "os_MkdirAll s (path_Dir fp) = (None, s1) \<Longrightarrow> os_Create s1 fp = (Inr fw, s2) \<Longrightarrow>
   os_Chmod s2 fp = Some err \<Longrightarrow>
   WriteSync fp data s = (Some (Wrapped err (''change permissions for file <'' @ fp @ ''>'')), s2)"
  by (simp add: WriteSync_def errors_Wrapf_def)

lemma WriteSync_Copy_fails:
  "os_MkdirAll s (path_Dir fp) = (None, s1) \<Longrightarrow> os_Create s1 fp = (Inr fw, s2) \<Longrightarrow>
   os_Chmod s2 fp = None \<Longrightarrow> io_Copy s2 fw data = (Some err, s3) \<Longrightarrow>
   WriteSync fp data s = (Some (Wrapped err (''copy file <'' @ fp @ ''>'')), s3)"
  by (simp add: WriteSync_def errors_Wrapf_def)

lemma WriteSync_Sync_fails:
  "os_MkdirAll s (path_Dir fp) = (None, s1) \<Longrightarrow> os_Create s1 fp = (Inr fw, s2) \<Longrightarrow>
   os_Chmod s2 fp = None \<Longrightarrow> io_Copy s2 fw data = (None, s3) \<Longrightarrow> file_Sync s3 fw = Some err \<Longrightarrow>
   WriteSync fp data s = (Some (Wrapped err (''sync file <'' @ fp @ ''>'')), s3)"
  by (simp add: WriteSync_def errors_Wrapf_def)

text \<open>
  C1, amended. Let the last element of the destination name be a file name (not empty,
  not \<open>.\<close> or \<open>..\<close>), in a well-formed store under an absolute root, and let
  \<open>r\<close> be the result of \<open>Save\<close> of a stream to that name, or of \<open>Copy\<close>
  to that name from a source it could open. Whichever step of the write fails after
  the steps before it have succeeded (creating the directory of the staging file,
  creating the staging file, setting its mode, copying the bytes, syncing), \<open>r\<close>
  is a failed write: it returns the error of that step (wrapped with the message of
  the step, and again by \<open>Save\<close>), its final state is that of \<open>os.Remove\<close>
  of the staging path in the state where the step failed, what the final name leads
  to is exactly what it led to before, and unless the removal is faulted no regular
  file is left at the staging path.
\<close>

theorem Save_failure_leaves_final:
  assumes wf: "wf_tree (tree s)" and ab: "abs_root fs"
    and nm: "plain (last (split_slash name))"
    and fp: "fp = path_Join (root fs) (name @ ''.tmp'')"
    and run: "r = Save fs name data sz s
            \<or> (\<exists>from. os_Open s (path_Join (root fs) src) = Inr from \<and> data = FileReader from
                      \<and> r = Copy fs src name s)"
  shows "(\<forall>err s1. os_MkdirAll s (path_Dir fp) = (Some err, s1) \<longrightarrow>
            failed_write fs name s r (Wrapped err (''create path '' @ path_Dir fp)) s1)
       \<and> (\<forall>err s1 s2. os_MkdirAll s (path_Dir fp) = (None, s1) \<and> os_Create s1 fp = (Inl err, s2) \<longrightarrow>
            failed_write fs name s r (Wrapped err (''create destination file <'' @ fp @ ''>'')) s2)
       \<and> (\<forall>err s1 s2 fw. os_MkdirAll s (path_Dir fp) = (None, s1) \<and> os_Create s1 fp = (Inr fw, s2)
              \<and> os_Chmod s2 fp = Some err \<longrightarrow>
            failed_write fs name s r (Wrapped err (''change permissions for file <'' @ fp @ ''>'')) s2)
       \<and> (\<forall>err s1 s2 s3 fw. os_MkdirAll s (path_Dir fp) = (None, s1) \<and> os_Create s1 fp = (Inr fw, s2)
              \<and> os_Chmod s2 fp = None \<and> io_Copy s2 fw data = (Some err, s3) \<longrightarrow>
            failed_write fs name s r (Wrapped err (''copy file <'' @ fp @ ''>'')) s3)
       \<and> (\<forall>err s1 s2 s3 fw. os_MkdirAll s (path_Dir fp) = (None, s1) \<and> os_Create s1 fp = (Inr fw, s2)
              \<and> os_Chmod s2 fp = None \<and> io_Copy s2 fw data = (None, s3)
              \<and> file_Sync s3 fw = Some err \<longrightarrow>
            failed_write fs name s r (Wrapped err (''sync file <'' @ fp @ ''>'')) s3)"
proof -
  have r: "r = Save fs name data sz s" using run Copy_is_Save by metis
  have k: "\<And>e s1. WriteSync fp data s = (Some e, s1) \<Longrightarrow> failed_write fs name s r e s1"
    unfolding r fp using Save_failed_write[OF wf ab nm] by blast
  have c1: "\<forall>err s1. os_MkdirAll s (path_Dir fp) = (Some err, s1) \<longrightarrow>
            failed_write fs name s r (Wrapped err (''create path '' @ path_Dir fp)) s1"
    using k WriteSync_MkdirAll_fails by blast
  have c2: "\<forall>err s1 s2. os_MkdirAll s (path_Dir fp) = (None, s1) \<and> os_Create s1 fp = (Inl err, s2) \<longrightarrow>
            failed_write fs name s r (Wrapped err (''create destination file <'' @ fp @ ''>'')) s2"
    using k WriteSync_Create_fails by blast
  have c3: "\<forall>err s1 s2 fw. os_MkdirAll s (path_Dir fp) = (None, s1) \<and> os_Create s1 fp = (Inr fw, s2)
              \<and> os_Chmod s2 fp = Some err \<longrightarrow>
            failed_write fs name s r (Wrapped err (''change permissions for file <'' @ fp @ ''>'')) s2"
    using k WriteSync_Chmod_fails by blast
  have c4: "\<forall>err s1 s2 s3 fw. os_MkdirAll s (path_Dir fp) = (None, s1) \<and> os_Create s1 fp = (Inr fw, s2)
              \<and> os_Chmod s2 fp = None \<and> io_Copy s2 fw data = (Some err, s3) \<longrightarrow>
            failed_write fs name s r (Wrapped err (''copy file <'' @ fp @ ''>'')) s3"
    using k WriteSync_Copy_fails by blast
  have c5: "\<forall>err s1 s2 s3 fw. os_MkdirAll s (path_Dir fp) = (None, s1) \<and> os_Create s1 fp = (Inr fw, s2)
              \<and> os_Chmod s2 fp = None \<and> io_Copy s2 fw data = (None, s3)
              \<and> file_Sync s3 fw = Some err \<longrightarrow>
            failed_write fs name s r (Wrapped err (''sync file <'' @ fp @ ''>'')) s3"
    using k WriteSync_Sync_fails by blast
  show ?thesis using c1 c2 c3 c4 c5 by blast
qed

lemma ex_fault_wf: "wf_tree (tree (ex_fault c))"
  by (simp add: ex_fault_def ex_defs wf_tree_def is_dir_def)

text \<open>
  C1, as claimed, for every destination name: it fails for the name \<open>a/\<close>. The
  final path \<open>/data/a\<close> is then the directory of the staging path
  \<open>/data/a/.tmp\<close>; \<open>os.MkdirAll\<close> creates it before \<open>Chmod\<close> fails, and
  it stays: nothing was at the final name before, a directory is there afterwards.
\<close>

theorem Save_failure_counterexample:
  "fst (WriteSync (path_Join (root ex_fs) (''a/'' @ ''.tmp'')) (Stream [1] None) (ex_fault SysChmod))
     = Some (Wrapped (OsError EIO) ''change permissions for file </data/a/.tmp>'')
   \<and> fst (Save ex_fs ''a/'' (Stream [1] None) 1 (ex_fault SysChmod))
     = Some (Wrapped (Wrapped (OsError EIO) ''change permissions for file </data/a/.tmp>'')
              ''write-sync /data/a'')
   \<and> lookup (ex_fault SysChmod) (path_Join (root ex_fs) ''a/'') True = Inl ENOENT
   \<and> lookup (snd (Save ex_fs ''a/'' (Stream [1] None) 1 (ex_fault SysChmod)))
        (path_Join (root ex_fs) ''a/'') True = Inr ([''data'', ''a''], Dir [])"
  by (simp add: ex_fault_def ex_defs go_defs path_defs os_defs)

theorem Save_failure_leaves_final_witness:
  "wf_tree (tree (ex_fault SysSync)) \<and> abs_root ex_fs
   \<and> plain (last (split_slash ''db/coll.bson''))
   \<and> fault (ex_fault SysSync) SysRemove = None
   \<and> fst (os_MkdirAll (ex_fault SysSync) ''/data/db'') = None
   \<and> fst (os_Create (snd (os_MkdirAll (ex_fault SysSync) ''/data/db'')) ''/data/db/coll.bson.tmp'')
       = Inr [''data'', ''db'', ''coll.bson.tmp'']
   \<and> os_Chmod (snd (os_Create (snd (os_MkdirAll (ex_fault SysSync) ''/data/db''))
                        ''/data/db/coll.bson.tmp'')) ''/data/db/coll.bson.tmp'' = None
   \<and> fst (io_Copy (snd (os_Create (snd (os_MkdirAll (ex_fault SysSync) ''/data/db''))
                        ''/data/db/coll.bson.tmp''))
             [''data'', ''db'', ''coll.bson.tmp''] (Stream [1, 2, 3] None)) = None
   \<and> file_Sync (snd (io_Copy (snd (os_Create (snd (os_MkdirAll (ex_fault SysSync) ''/data/db''))
                                  ''/data/db/coll.bson.tmp''))
                       [''data'', ''db'', ''coll.bson.tmp''] (Stream [1, 2, 3] None)))
        [''data'', ''db'', ''coll.bson.tmp''] = Some (OsError EIO)
   \<and> fst (Save ex_fs ''db/coll.bson'' (Stream [1, 2, 3] None) 3 (ex_fault SysSync))
       = Some (Wrapped (Wrapped (OsError EIO) ''sync file </data/db/coll.bson.tmp>'')
                ''write-sync /data/db'')
   \<and> lookup (ex_fault SysSync) (path_Join (root ex_fs) ''db/coll.bson'') True
       = Inr ([''data'', ''db'', ''coll.bson''], File hello_world)
   \<and> lookup (snd (Save ex_fs ''db/coll.bson'' (Stream [1, 2, 3] None) 3 (ex_fault SysSync)))
        (path_Join (root ex_fs) ''db/coll.bson'') True
       = Inr ([''data'', ''db'', ''coll.bson''], File hello_world)
   \<and> (\<forall>cp b. lookup (snd (Save ex_fs ''db/coll.bson'' (Stream [1, 2, 3] None) 3 (ex_fault SysSync)))
                (path_Join (root ex_fs) (''db/coll.bson'' @ ''.tmp'')) False \<noteq> Inr (cp, File b))
   \<and> os_Open (ex_fault SysSync) (path_Join (root ex_fs) ''db/coll.bson'')
       = Inr [''data'', ''db'', ''coll.bson'']
   \<and> fst (Copy ex_fs ''db/coll.bson'' ''db/copy'' (ex_fault SysSync))
       = Some (Wrapped (Wrapped (OsError EIO) ''sync file </data/db/copy.tmp>'')
                ''write-sync /data/db'')
   \<and> lookup (ex_fault SysSync) (path_Join (root ex_fs) ''db/copy'') True = Inl ENOENT
   \<and> lookup (snd (Copy ex_fs ''db/coll.bson'' ''db/copy'' (ex_fault SysSync)))
        (path_Join (root ex_fs) ''db/copy'') True = Inl ENOENT"
proof -
  let ?s = "ex_fault SysSync" and ?fp = "''/data/db/coll.bson.tmp''"
  let ?fw = "[''data'', ''db'', ''coll.bson.tmp'']" and ?data = "Stream [1, 2, 3] None"
  let ?m = "os_MkdirAll ?s ''/data/db''"
  let ?c = "os_Create (snd ?m) ?fp"
  let ?i = "io_Copy (snd ?c) ?fw ?data"
  let ?r = "Save ex_fs ''db/coll.bson'' ?data 3 ?s"
  have fp: "?fp = path_Join (root ex_fs) (''db/coll.bson'' @ ''.tmp'')"
    by (simp add: ex_defs path_defs)
  have d: "path_Dir ?fp = ''/data/db''" by (simp add: path_defs)
  have d2: "path_Dir (path_Join (root ex_fs) ''db/coll.bson.tmp'') = ''/data/db''"
    by (simp add: ex_defs path_defs)
  have nm: "plain (last (split_slash ''db/coll.bson''))" by (simp add: plain_def)
  have rm: "fault ?s SysRemove = None" by (simp add: ex_fault_def)
  have m0: "fst ?m = None" by (simp add: ex_fault_def ex_defs os_defs)
  have c0: "fst ?c = Inr ?fw" by (simp add: ex_fault_def ex_defs os_defs)
  have h0: "os_Chmod (snd ?c) ?fp = None" by (simp add: ex_fault_def ex_defs os_defs)
  have i0: "fst ?i = None" by (simp add: ex_fault_def ex_defs os_defs)
  have y0: "file_Sync (snd ?i) ?fw = Some (OsError EIO)" by (simp add: ex_fault_def ex_defs os_defs)
  have m: "os_MkdirAll ?s (path_Dir ?fp) = (None, snd ?m)" using m0 d by (metis prod.collapse)
  have c: "?c = (Inr ?fw, snd ?c)" using c0 by (metis prod.collapse)
  have i: "?i = (None, snd ?i)" using i0 by (metis prod.collapse)
  have l: "lookup ?s (path_Join (root ex_fs) ''db/coll.bson'') True
       = Inr ([''data'', ''db'', ''coll.bson''], File hello_world)"
    by (simp add: ex_fault_def ex_defs path_defs lookup_def namei_def)
  have run: "?r = ?r \<or> (\<exists>from. os_Open ?s (path_Join (root ex_fs) ''x'') = Inr from
      \<and> ?data = FileReader from \<and> ?r = Copy ex_fs ''x'' ''db/coll.bson'' ?s)" by simp
  have fw: "failed_write ex_fs ''db/coll.bson'' ?s ?r
          (Wrapped (OsError EIO) (''sync file <'' @ ?fp @ ''>'')) (snd ?i)"
    using Save_failure_leaves_final[OF ex_fault_wf ex_abs nm fp run] m c h0 i y0 by blast
  have "fst ?r = Some (Wrapped (Wrapped (OsError EIO) (''sync file <'' @ ?fp @ ''>''))
                (''write-sync '' @ path_Dir (path_Join (root ex_fs) (''db/coll.bson'' @ ''.tmp''))))"
    using fw unfolding failed_write_def by blast
  then have k: "fst ?r = Some (Wrapped (Wrapped (OsError EIO) ''sync file </data/db/coll.bson.tmp>'')
                ''write-sync /data/db'')"
    using d2 by simp
  have "lookup (snd ?r) (path_Join (root ex_fs) ''db/coll.bson'') True
       = lookup ?s (path_Join (root ex_fs) ''db/coll.bson'') True"
    using fw unfolding failed_write_def by blast
  then have k2: "lookup (snd ?r) (path_Join (root ex_fs) ''db/coll.bson'') True
       = Inr ([''data'', ''db'', ''coll.bson''], File hello_world)" using l by simp
  have k3: "\<forall>cp b. lookup (snd ?r) (path_Join (root ex_fs) (''db/coll.bson'' @ ''.tmp'')) False
                \<noteq> Inr (cp, File b)"
    using fw rm unfolding failed_write_def by blast
  let ?gp = "''/data/db/copy.tmp''" and ?gw = "[''data'', ''db'', ''copy.tmp'']"
  let ?from = "[''data'', ''db'', ''coll.bson'']"
  let ?gc = "os_Create (snd ?m) ?gp"
  let ?gi = "io_Copy (snd ?gc) ?gw (FileReader ?from)"
  let ?q = "Copy ex_fs ''db/coll.bson'' ''db/copy'' ?s"
  have gp: "?gp = path_Join (root ex_fs) (''db/copy'' @ ''.tmp'')"
    by (simp add: ex_defs path_defs)
  have gd: "path_Dir ?gp = ''/data/db''" by (simp add: path_defs)
  have gd2: "path_Dir (path_Join (root ex_fs) ''db/copy.tmp'') = ''/data/db''"
    by (simp add: ex_defs path_defs)
  have gn: "plain (last (split_slash ''db/copy''))" by (simp add: plain_def)
  have op: "os_Open ?s (path_Join (root ex_fs) ''db/coll.bson'') = Inr ?from"
    by (simp add: ex_fault_def ex_defs path_defs os_defs)
  have gc0: "fst ?gc = Inr ?gw" by (simp add: ex_fault_def ex_defs os_defs)
  have gh0: "os_Chmod (snd ?gc) ?gp = None" by (simp add: ex_fault_def ex_defs os_defs)
  have gi0: "fst ?gi = None" by (simp add: ex_fault_def ex_defs os_defs)
  have gy0: "file_Sync (snd ?gi) ?gw = Some (OsError EIO)"
    by (simp add: ex_fault_def ex_defs os_defs)
  have gm: "os_MkdirAll ?s (path_Dir ?gp) = (None, snd ?m)" using m0 gd by (metis prod.collapse)
  have gc: "?gc = (Inr ?gw, snd ?gc)" using gc0 by (metis prod.collapse)
  have gi: "?gi = (None, snd ?gi)" using gi0 by (metis prod.collapse)
  have gl: "lookup ?s (path_Join (root ex_fs) ''db/copy'') True = Inl ENOENT"
    by (simp add: ex_fault_def ex_defs path_defs lookup_def namei_def)
  have grun: "?q = Save ex_fs ''db/copy'' (FileReader ?from) 0 ?s
      \<or> (\<exists>from. os_Open ?s (path_Join (root ex_fs) ''db/coll.bson'') = Inr from
      \<and> FileReader ?from = FileReader from \<and> ?q = Copy ex_fs ''db/coll.bson'' ''db/copy'' ?s)"
    using op by simp
  have gfw: "failed_write ex_fs ''db/copy'' ?s ?q
          (Wrapped (OsError EIO) (''sync file <'' @ ?gp @ ''>'')) (snd ?gi)"
    using Save_failure_leaves_final[OF ex_fault_wf ex_abs gn gp grun] gm gc gh0 gi gy0 by blast
  have "fst ?q = Some (Wrapped (Wrapped (OsError EIO) (''sync file <'' @ ?gp @ ''>''))
                (''write-sync '' @ path_Dir (path_Join (root ex_fs) (''db/copy'' @ ''.tmp''))))"
    using gfw unfolding failed_write_def by blast
  then have g1: "fst ?q = Some (Wrapped (Wrapped (OsError EIO) ''sync file </data/db/copy.tmp>'')
                ''write-sync /data/db'')"
    using gd2 by simp
  have "lookup (snd ?q) (path_Join (root ex_fs) ''db/copy'') True
       = lookup ?s (path_Join (root ex_fs) ''db/copy'') True"
    using gfw unfolding failed_write_def by blast
  then have g2: "lookup (snd ?q) (path_Join (root ex_fs) ''db/copy'') True = Inl ENOENT"
    using gl by simp
  show ?thesis using ex_fault_wf ex_abs nm rm m0 c0 h0 i0 y0 k k2 k3 l op g1 gl g2 by blast
qed

lemma ex_staging_partial:
  "tree (snd (WriteSync (path_Join (root ex_fs) (''db/coll.bson'' @ ''.tmp'')) (Stream [1, 2, 3] None)
            (ex_fault SysWrite)))
   = Dir [(''data'', Dir [(''db'', Dir [(''coll.bson'', File hello_world), (''coll.bson.tmp'', File [1, 2])])])]"
  by (simp add: ex_fault_def ex_defs go_defs path_defs os_defs)

subsection \<open>Copy as a streamed Save\<close>

lemma io_Copy_Stream: "io_Copy s fw (Stream bs None) = file_Write s fw bs"
  by (auto simp: io_Copy_def split: prod.splits option.splits)

lemma io_Copy_FileReader:
  "fault s SysRead = None \<Longrightarrow> locate (tree s) F = Inr (File bs) \<Longrightarrow>
   io_Copy s fw (FileReader F) = file_Write s fw bs"
  by (simp add: io_Copy_def file_ReadAll_def get_locate)

lemma WriteSync_FileReader:
  assumes wf: "wf_tree (tree s)" and pl: "list_all plain S" and ne: "S \<noteq> []"
    and src: "locate (tree s) F = Inr (File bs)" and FS: "F \<noteq> S"
    and rd: "fault s SysRead = None"
  shows "WriteSync (path_string S) (FileReader F) s = WriteSync (path_string S) (Stream bs None) s"
proof -
  obtain P x where S: "S = P @ [x]" using ne by (cases S rule: rev_cases) auto
  have plP: "list_all plain P" using pl S by simp
  have dir: "path_Dir (path_string S) = path_string P"
    unfolding S using pl S by (intro path_Dir_path_string) simp
  obtain r1 s1 where mk: "os_MkdirAll s (path_string P) = (r1, s1)" by (cases "os_MkdirAll s (path_string P)")
  show ?thesis
  proof (cases r1)
    case (Some e1)
    then show ?thesis using mk dir by (simp add: WriteSync_def)
  next
    case None
    note m = os_MkdirAll_plain[OF wf plP mk[unfolded None]]
    have wf1: "wf_tree (tree s1)" and f1: "locate (tree s1) F = Inr (File bs)" using m src by auto
    have rd1: "fault s1 SysRead = None" using m rd
      by (metis os_state.select_convs(3) os_state.surjective os_state.update_convs(1))
    obtain rc s2 where cr: "os_Create s1 (path_string S) = (rc, s2)" by (cases "os_Create s1 (path_string S)")
    show ?thesis
    proof (cases rc)
      case (Inl e)
      then show ?thesis using mk None dir cr by (simp add: WriteSync_def)
    next
      case (Inr fw)
      note c = os_Create_plain[OF wf1 pl cr[unfolded Inr]]
      have s2: "s2 = s1\<lparr>tree := put (tree s1) S (File [])\<rparr>"
        and po1: "parent_ok (tree s1) S" and nd1: "\<not> dir_at (tree s1) S" using c by simp_all
      have "\<not> prefix S F \<and> \<not> prefix F S" using file_incomparable[OF f1 FS po1 nd1] .
      then have f2: "locate (tree s2) F = Inr (File bs)" using s2 f1 by (simp add: locate_put_other)
      have rd2: "fault s2 SysRead = None" using s2 rd1 by simp
      have "io_Copy s2 fw (FileReader F) = io_Copy s2 fw (Stream bs None)"
        using io_Copy_FileReader[OF rd2 f2] io_Copy_Stream by simp
      then show ?thesis using mk None dir cr Inr
        by (simp add: WriteSync_def split: option.splits)
    qed
  qed
qed

text \<open>
  C7, amended. In a well-formed store under an absolute root, let \<open>src\<close> lead to a
  regular file holding \<open>bs\<close>, at a path other than the staging path of \<open>dst\<close>,
  with \<open>Open\<close> and \<open>Read\<close> not faulted. Then \<open>Copy\<close> returns the result
  and the final state of \<open>Save\<close> of \<open>bs\<close> under \<open>dst\<close>, and after a
  successful \<open>Copy\<close> reading \<open>dst\<close> yields \<open>bs\<close> and reading \<open>src\<close>
  still yields \<open>bs\<close>.
\<close>

theorem Copy_refines_Save:
  assumes wf: "wf_tree (tree s)" and ab: "abs_root fs"
    and src: "lookup s (path_Join (root fs) src) True = Inr (cp, File bs)"
    and ns: "path_Join (root fs) src \<noteq> path_Join (root fs) (dst @ ''.tmp'')"
    and op: "fault s SysOpen = None" and rd: "fault s SysRead = None"
  shows "Copy fs src dst s = Save fs dst (Stream bs None) sz s
       \<and> (\<forall>s'. Copy fs src dst s = (None, s') \<longrightarrow>
            (\<exists>r. SourceReader fs dst s' = Inr r \<and> reader_ReadAll s' r = Inr bs)
          \<and> (\<exists>r. SourceReader fs src s' = Inr r \<and> reader_ReadAll s' r = Inr bs))"
proof -
  let ?F = "final_path fs src" and ?S = "staging_path fs dst" and ?C = "final_path fs dst"
  have F: "path_Join (root fs) src = path_string ?F" using ab by (rule final_string)
  have S: "path_Join (root fs) (dst @ ''.tmp'') = path_string ?S" using ab by (rule staging_string)
  have lF: "locate (tree s) ?F = Inr (File bs)"
    using src by (auto simp: F lookup_plain[OF wf final_plain] split: sum.splits)
  have FS: "?F \<noteq> ?S" using ns F S by auto
  have opn: "os_Open s (path_Join (root fs) src) = Inr ?F"
    using lF op by (simp add: os_Open_def F lookup_plain[OF wf final_plain])
  have "Copy fs src dst s = Save fs dst (FileReader ?F) sz s" using opn by (rule Copy_is_Save)
  also have "\<dots> = Save fs dst (Stream bs None) sz s"
    using WriteSync_FileReader[OF wf staging_plain staging_nonempty lF FS rd]
    by (simp add: Save_def S)
  finally have eq: "Copy fs src dst s = Save fs dst (Stream bs None) sz s" .
  have post: "\<And>s'. Copy fs src dst s = (None, s') \<Longrightarrow>
            (\<exists>r. SourceReader fs dst s' = Inr r \<and> reader_ReadAll s' r = Inr bs)
          \<and> (\<exists>r. SourceReader fs src s' = Inr r \<and> reader_ReadAll s' r = Inr bs)"
  proof -
    fix s' assume "Copy fs src dst s = (None, s')"
    then have sv: "Save fs dst (Stream bs None) sz s = (None, s')" using eq by simp
    obtain s3 where ws: "WriteSync (path_string ?S) (Stream bs None) s = (None, s3)"
      and rn: "os_Rename s3 (path_string ?S) (path_string ?C) = (None, s')"
      using Save_None[OF ab sv] by blast
    note p = publish_ok[OF wf staging_plain staging_nonempty final_plain ws rn]
    have wf': "wf_tree (tree s')" and fC: "locate (tree s') ?C = Inr (File bs)"
      and flt: "fault s' SysOpen = None" "fault s' SysRead = None"
      using p op rd by auto
    have fF: "locate (tree s') ?F = Inr (File bs)"
    proof (cases "?F = ?C")
      case True then show ?thesis using fC by simp
    next
      case False then show ?thesis using p lF FS by blast
    qed
    show "(\<exists>r. SourceReader fs dst s' = Inr r \<and> reader_ReadAll s' r = Inr bs)
          \<and> (\<exists>r. SourceReader fs src s' = Inr r \<and> reader_ReadAll s' r = Inr bs)"
      using read_file[OF wf' ab fC flt] read_file[OF wf' ab fF flt] by blast
  qed
  show ?thesis using eq post by blast
qed

text \<open>
  C7, as claimed, for every existing source and every destination: it fails where the
  source is the staging file of the destination. \<open>Copy\<close> of \<open>p.tmp\<close> to
  \<open>p\<close> opens the source, then \<open>os.Create\<close> truncates that same file as the
  staging file, nothing is copied, and the rename moves it away: \<open>p\<close> is empty and
  \<open>p.tmp\<close> is gone, while a \<open>Save\<close> of the source's bytes would have stored
  them.
\<close>

theorem Copy_staging_source_counterexample:
  "lookup ex_tmp (path_Join (root ex_fs) ''p.tmp'') True = Inr ([''data'', ''p.tmp''], File [1, 2, 3])
   \<and> fst (Copy ex_fs ''p.tmp'' ''p'' ex_tmp) = None
   \<and> tree (snd (Copy ex_fs ''p.tmp'' ''p'' ex_tmp)) = Dir [(''data'', Dir [(''p'', File [])])]
   \<and> tree (snd (Save ex_fs ''p'' (Stream [1, 2, 3] None) 3 ex_tmp))
       = Dir [(''data'', Dir [(''p'', File [1, 2, 3])])]
   \<and> (case SourceReader ex_fs ''p'' (snd (Copy ex_fs ''p.tmp'' ''p'' ex_tmp)) of
         Inl e \<Rightarrow> Inl e | Inr r \<Rightarrow> reader_ReadAll (snd (Copy ex_fs ''p.tmp'' ''p'' ex_tmp)) r) = Inr []
   \<and> SourceReader ex_fs ''p.tmp'' (snd (Copy ex_fs ''p.tmp'' ''p'' ex_tmp)) = Inl ErrNotExist"
  by (simp add: ex_tmp_def ex_defs go_defs Copy_def SourceReader_def path_defs os_defs)

lemma ex_copy: "fst (Copy ex_fs ''db/coll.bson'' ''copy/c'' ex_state) = None"
  by (simp add: ex_defs go_defs Copy_def path_defs os_defs)

theorem Copy_refines_Save_witness:
  "wf_tree (tree ex_state) \<and> abs_root ex_fs
   \<and> lookup ex_state (path_Join (root ex_fs) ''db/coll.bson'') True
       = Inr ([''data'', ''db'', ''coll.bson''], File hello_world)
   \<and> path_Join (root ex_fs) ''db/coll.bson'' \<noteq> path_Join (root ex_fs) (''copy/c'' @ ''.tmp'')
   \<and> fault ex_state SysOpen = None \<and> fault ex_state SysRead = None
   \<and> fst (Copy ex_fs ''db/coll.bson'' ''copy/c'' ex_state) = None
   \<and> Copy ex_fs ''db/coll.bson'' ''copy/c'' ex_state
       = Save ex_fs ''copy/c'' (Stream hello_world None) 11 ex_state
   \<and> (\<exists>r. SourceReader ex_fs ''copy/c'' (snd (Copy ex_fs ''db/coll.bson'' ''copy/c'' ex_state)) = Inr r
          \<and> reader_ReadAll (snd (Copy ex_fs ''db/coll.bson'' ''copy/c'' ex_state)) r = Inr hello_world)
   \<and> (\<exists>r. SourceReader ex_fs ''db/coll.bson'' (snd (Copy ex_fs ''db/coll.bson'' ''copy/c'' ex_state)) = Inr r
          \<and> reader_ReadAll (snd (Copy ex_fs ''db/coll.bson'' ''copy/c'' ex_state)) r = Inr hello_world)"
proof -
  let ?c = "Copy ex_fs ''db/coll.bson'' ''copy/c'' ex_state"
  have a: "lookup ex_state (path_Join (root ex_fs) ''db/coll.bson'') True
       = Inr ([''data'', ''db'', ''coll.bson''], File hello_world)"
    by (simp add: ex_defs path_defs lookup_def namei_def)
  have b: "path_Join (root ex_fs) ''db/coll.bson'' \<noteq> path_Join (root ex_fs) (''copy/c'' @ ''.tmp'')"
    by (simp add: ex_defs path_defs)
  have f: "fault ex_state SysOpen = None" "fault ex_state SysRead = None" by (simp_all add: ex_defs)
  have c: "?c = (None, snd ?c)" using ex_copy by (metis prod.collapse)
  note t = Copy_refines_Save[OF ex_wf ex_abs a b f, of 11]
  have t1: "?c = Save ex_fs ''copy/c'' (Stream hello_world None) 11 ex_state" using t by blast
  have t2: "(\<exists>r. SourceReader ex_fs ''copy/c'' (snd ?c) = Inr r
          \<and> reader_ReadAll (snd ?c) r = Inr hello_world)
   \<and> (\<exists>r. SourceReader ex_fs ''db/coll.bson'' (snd ?c) = Inr r
          \<and> reader_ReadAll (snd ?c) r = Inr hello_world)" using t c by blast
  show ?thesis using ex_wf ex_abs a b f ex_copy t1 t2 by blast
qed

subsection \<open>Cast and New: the storage root\<close>





subsection \<open>List\<close>

lemma join_slash_append:
  "B \<noteq> [] \<Longrightarrow> p \<noteq> [] \<Longrightarrow> join_slash (B @ p) = join_slash B @ CHR ''/'' # join_slash p"
  by (induction B rule: join_slash.induct) (auto, (cases p; simp)?)

lemma plain_hd: "plain w \<Longrightarrow> hd w \<noteq> CHR ''/''"
  by (cases w) (auto simp: plain_def)

lemma join_slash_hd:
  "list_all plain p \<Longrightarrow> p \<noteq> [] \<Longrightarrow> join_slash p \<noteq> [] \<and> hd (join_slash p) \<noteq> CHR ''/''"
proof (induction p rule: join_slash.induct)
  case (2 w) then show ?case using plain_hd[of w] by (auto simp: plain_def)
next
  case (3 w v va) then show ?case using plain_hd[of w] by (auto simp: plain_def)
qed simp

lemma rel_name_cases:
  assumes "list_all plain (B @ p)"
  shows "rel_name B p = (if p = [] then [] else if B = [] then join_slash p
                         else CHR ''/'' # join_slash p)"
proof (cases "p = []")
  case True
  then show ?thesis by (simp add: rel_name_def strings_TrimPrefix_def filepath_ToSlash_def)
next
  case False
  show ?thesis
  proof (cases "B = []")
    case True
    then show ?thesis using False
      by (auto simp: rel_name_def strings_TrimPrefix_def filepath_ToSlash_def path_string_def)
  next
    case B: False
    show ?thesis using False B
      by (auto simp: rel_name_def strings_TrimPrefix_def filepath_ToSlash_def path_string_def
          join_slash_append[OF B False])
  qed
qed

lemma list_visit_rel:
  "list_visit (path_string B) sfx (path_string (B @ p)) (Some info) None files =
     (if IsDir info then (None, files)
      else if rel_name B p = [] then (None, files)
      else if strings_HasSuffix (if hd (rel_name B p) = CHR ''/'' then tl (rel_name B p) else rel_name B p) sfx
           then (None, files @ [\<lparr>Name = (if hd (rel_name B p) = CHR ''/'' then tl (rel_name B p) else rel_name B p),
                                  Size = FSize info\<rparr>])
           else (None, files))"
  by (simp add: list_visit_def rel_name_def Let_def)

lemma visit_node:
  assumes "list_all plain (B @ p)"
  shows "list_visit (path_string B) sfx (path_string (B @ p)) (Some (node_info s n)) None files
         = (None, files @ (case n of Dir es \<Rightarrow> [] | _ \<Rightarrow> listing s sfx p n))"
proof (cases "p = []")
  case True
  have "rel_name B p = []" using rel_name_cases[OF assms] True by simp
  then show ?thesis using True list_visit_rel[of B sfx "[]" "node_info s n" files]
    by (cases n) (simp_all add: node_info_def entry_def)
next
  case False
  have plp: "list_all plain p" using assms by simp
  note h = join_slash_hd[OF plp False]
  have r: "rel_name B p \<noteq> []"
    "(if hd (rel_name B p) = CHR ''/'' then tl (rel_name B p) else rel_name B p) = join_slash p"
    using rel_name_cases[OF assms] False h by auto
  show ?thesis using False
    by (cases n) (simp_all add: list_visit_rel r node_info_def entry_def)
qed

lemma join_child:
  assumes "list_all plain Q" "plain c"
  shows "filepath_Join (path_string Q) c = path_string (Q @ [c])"
proof -
  have "clean_path (path_string Q @ CHR ''/'' # c) = Q @ [c]"
    using assms
    by (auto simp: clean_path_def split_slash_append_slash split_path_string
        split_slash_free_id plain_slash_free foldl_clean_id clean_step_def plain_def)
  then show ?thesis
    by (simp add: filepath_Join_def path_Join_def path_Clean_rooted path_string_def)
qed

lemma walk_listing:
  assumes rd: "fault s SysReadDir = None"
  shows "fn = list_visit (path_string B) sfx \<Longrightarrow> pth = path_string (B @ p) \<Longrightarrow>
         list_all plain (B @ p) \<Longrightarrow> wf_names n \<Longrightarrow>
         walkDir s fn pth n acc = (None, acc @ listing s sfx p n)"
    and "fn = list_visit (path_string B) sfx \<Longrightarrow> pth = path_string (B @ p) \<Longrightarrow>
         list_all plain (B @ p) \<Longrightarrow> wf_names_entries es \<Longrightarrow>
         walkEntries s fn pth es acc = (None, acc @ listing_entries s sfx p es)"
  using rd
proof (induction s fn pth n acc and s fn pth es acc
       arbitrary: p and p rule: walkDir_walkEntries.induct)
  case (1 s fn pth n acc)
  have rd: "fault s SysReadDir = None" using "1.prems" by simp
  have v: "fn pth (Some (node_info s n)) None acc
         = (None, acc @ (case n of Dir es \<Rightarrow> [] | _ \<Rightarrow> listing s sfx p n))"
    using visit_node[OF "1.prems"(3)] "1.prems"(1,2) by simp
  show ?case
  proof (cases n)
    case (Dir es)
    have wfe: "wf_names_entries es" using "1.prems"(4) Dir by simp
    have "walkEntries s fn pth es acc = (None, acc @ listing_entries s sfx p es)"
      using "1.IH"[OF _ _ Dir rd "1.prems"(1,2,3) wfe rd] v Dir by simp
    then show ?thesis using v Dir rd by simp
  next
    case (File bs) then show ?thesis using v by simp
  next
    case (Symlink t) then show ?thesis using v by simp
  qed
next
  case (2 s fn pth acc)
  then show ?case by simp
next
  case (3 s fn pth e es acc)
  have rd: "fault s SysReadDir = None" using "3.prems" by simp
  have pe: "plain (fst e)" and wn: "wf_names (snd e)" and we: "wf_names_entries es"
    using "3.prems"(4) by simp_all
  have ch: "filepath_Join pth (fst e) = path_string (B @ (p @ [fst e]))"
    using join_child[OF "3.prems"(3) pe] "3.prems"(2) by simp
  have pl': "list_all plain (B @ (p @ [fst e]))" using "3.prems"(3) pe by simp
  have w1: "walkDir s fn (filepath_Join pth (fst e)) (snd e) acc
         = (None, acc @ listing s sfx (p @ [fst e]) (snd e))"
    using "3.IH"(1)[OF "3.prems"(1) ch pl' wn rd] .
  have w2: "walkEntries s fn pth es (acc @ listing s sfx (p @ [fst e]) (snd e))
         = (None, (acc @ listing s sfx (p @ [fst e]) (snd e)) @ listing_entries s sfx p es)"
    using "3.IH"(2)[OF _ _ "3.prems"(1,2,3) we rd] w1 by simp
  show ?case using w1 w2 by simp
qed

lemma IsDir_node_info: "IsDir (node_info s m) = is_dir m"
  by (cases m) (simp_all add: node_info_def is_dir_def)

lemma locate_leaf_iff: "\<not> is_dir n \<Longrightarrow> locate n q = Inr m \<longleftrightarrow> q = [] \<and> m = n"
  by (cases n; cases q) (auto simp: is_dir_def)

lemma locate_Dir_leaf_iff:
  "\<not> is_dir m \<Longrightarrow> locate (Dir es) q = Inr m \<longleftrightarrow>
     (\<exists>c q' m'. q = c # q' \<and> map_of es c = Some m' \<and> locate m' q' = Inr m)"
  by (cases q) (auto simp: is_dir_def split: option.splits)

lemma hits_leaf:
  "\<not> is_dir n \<Longrightarrow>
   hits s sfx p n = (if p \<noteq> [] \<and> strings_HasSuffix (join_slash p) sfx then {hit s p n} else {})"
  by (auto simp: hits_def locate_leaf_iff)

lemma hits_Dir_Nil: "hits s sfx p (Dir []) = {}"
  by (auto simp: hits_def locate_Dir_leaf_iff)

lemma hits_Dir_Cons:
  assumes "distinct (map fst (e # es))"
  shows "hits s sfx p (Dir (e # es)) = hits s sfx (p @ [fst e]) (snd e) \<union> hits s sfx p (Dir es)"
proof -
  have ne: "map_of es (fst e) = None" using assms by (cases e) (auto simp: map_of_eq_None_iff)
  show ?thesis
  proof (intro set_eqI iffI)
    fix f assume "f \<in> hits s sfx p (Dir (e # es))"
    then obtain q m where h0: "locate (Dir (e # es)) q = Inr m" "\<not> is_dir m"
      "strings_HasSuffix (join_slash (p @ q)) sfx" "f = hit s (p @ q) m"
      unfolding hits_def by blast
    then obtain c q' m' where h: "q = c # q'" "map_of (e # es) c = Some m'" "locate m' q' = Inr m"
      using locate_Dir_leaf_iff[OF h0(2)] by blast
    show "f \<in> hits s sfx (p @ [fst e]) (snd e) \<union> hits s sfx p (Dir es)"
    proof (cases "c = fst e")
      case True
      then have "m' = snd e" using h(2) by (cases e) auto
      then have "f \<in> hits s sfx (p @ [fst e]) (snd e)"
        unfolding hits_def using h h0 True by auto
      then show ?thesis by simp
    next
      case False
      then have "map_of es c = Some m'" using h(2) by (cases e) auto
      then have "locate (Dir es) q = Inr m" using h by simp
      then have "f \<in> hits s sfx p (Dir es)"
        unfolding hits_def using h h0 by blast
      then show ?thesis by simp
    qed
  next
    fix f assume "f \<in> hits s sfx (p @ [fst e]) (snd e) \<union> hits s sfx p (Dir es)"
    then show "f \<in> hits s sfx p (Dir (e # es))"
    proof
      assume "f \<in> hits s sfx (p @ [fst e]) (snd e)"
      then obtain q m where h: "locate (snd e) q = Inr m" "\<not> is_dir m"
        "strings_HasSuffix (join_slash (p @ fst e # q)) sfx" "f = hit s (p @ fst e # q) m"
        unfolding hits_def by auto
      have "locate (Dir (e # es)) (fst e # q) = Inr m" using h(1) by (cases e) simp
      then show ?thesis unfolding hits_def using h by blast
    next
      assume "f \<in> hits s sfx p (Dir es)"
      then obtain q m where h0: "locate (Dir es) q = Inr m" "\<not> is_dir m"
        "strings_HasSuffix (join_slash (p @ q)) sfx" "f = hit s (p @ q) m" "p @ q \<noteq> []"
        unfolding hits_def by blast
      then obtain c q' m' where h: "q = c # q'" "map_of es c = Some m'" "locate m' q' = Inr m"
        using locate_Dir_leaf_iff[OF h0(2)] by blast
      then have "c \<noteq> fst e" using ne by auto
      then have "locate (Dir (e # es)) q = Inr m" using h by (cases e) auto
      then show ?thesis unfolding hits_def using h0 by blast
    qed
  qed
qed

lemma listing_hits:
  "wf_names n \<Longrightarrow> set (listing s sfx p n) = hits s sfx p n"
  and listing_entries_hits: "wf_names_entries es \<Longrightarrow> distinct (map fst es) \<Longrightarrow>
   set (listing_entries s sfx p es) = hits s sfx p (Dir es)"
proof (induction s sfx p n and s sfx p es rule: listing_listing_entries.induct)
  case (1 s sfx p bs)
  then show ?case by (simp add: hits_leaf entry_def hit_def is_dir_def)
next
  case (2 s sfx p tgt)
  then show ?case by (simp add: hits_leaf entry_def hit_def is_dir_def)
next
  case (3 s sfx p es)
  then show ?case by simp
next
  case (4 s sfx p)
  then show ?case by (simp add: hits_Dir_Nil)
next
  case (5 s sfx p e es)
  have d: "distinct (map fst (e # es))" using 5 by simp
  have a: "set (listing s sfx (p @ [fst e]) (snd e)) = hits s sfx (p @ [fst e]) (snd e)"
    using 5 by simp
  have b: "set (listing_entries s sfx p es) = hits s sfx p (Dir es)" using 5 by simp
  show ?case using a b hits_Dir_Cons[OF d] by simp
qed

lemma join_slash_inject:
  assumes "list_all plain a" "list_all plain b" "a \<noteq> []" "b \<noteq> []"
    "join_slash a = join_slash b"
  shows "a = b"
proof -
  have "list_all slash_free a" "list_all slash_free b"
    using assms(1,2) by (auto simp: list_all_iff plain_slash_free)
  then have "split_slash (join_slash a) = a" "split_slash (join_slash b) = b"
    using assms(3,4) split_join[of a] split_join[of b] by blast+
  then show ?thesis using assms(5) by metis
qed

lemma wf_names_entries_map_of:
  "wf_names_entries es \<Longrightarrow> map_of es c = Some m \<Longrightarrow> plain c \<and> wf_names m"
  by (induction es) (auto split: if_splits)

lemma locate_plain: "wf_names n \<Longrightarrow> locate n q = Inr x \<Longrightarrow> list_all plain q \<and> wf_names x"
proof (induction n q rule: locate.induct)
  case (2 es c cs)
  then show ?case by (auto split: option.splits dest: wf_names_entries_map_of)
qed auto

lemma hits_Name:
  assumes "wf_names n" "f \<in> hits s sfx p n"
  shows "\<exists>q. list_all plain q \<and> p @ q \<noteq> [] \<and> Name f = join_slash (p @ q)
             \<and> (\<exists>m. locate n q = Inr m \<and> \<not> is_dir m)"
  using assms by (auto simp: hits_def hit_def dest: locate_plain)

lemma listing_distinct:
  "wf_names n \<Longrightarrow> list_all plain p \<Longrightarrow>
   distinct (map Name (listing s sfx p n))"
  and "wf_names_entries es \<Longrightarrow> distinct (map fst es) \<Longrightarrow>
   list_all plain p \<Longrightarrow> distinct (map Name (listing_entries s sfx p es))"
proof (induction s sfx p n and s sfx p es rule: listing_listing_entries.induct)
  case (1 s sfx p bs) then show ?case by (simp add: entry_def)
next
  case (2 s sfx p tgt) then show ?case by (simp add: entry_def)
next
  case (3 s sfx p es) then show ?case by simp
next
  case (4 s sfx p) then show ?case by simp
next
  case (5 s sfx p e es)
  have pe: "plain (fst e)" and wn: "wf_names (snd e)" and we: "wf_names_entries es"
    and d: "distinct (map fst es)" and ne: "fst e \<notin> fst ` set es"
    using "5.prems" by auto
  have d1: "distinct (map Name (listing s sfx (p @ [fst e]) (snd e)))"
    using "5.IH"(1)[OF wn] "5.prems"(3) pe by simp
  have d2: "distinct (map Name (listing_entries s sfx p es))"
    using "5.IH"(2)[OF we d "5.prems"(3)] .
  have disj: "Name ` set (listing s sfx (p @ [fst e]) (snd e))
               \<inter> Name ` set (listing_entries s sfx p es) = {}"
  proof (rule ccontr)
    assume "\<not> ?thesis"
    then obtain f g where f: "f \<in> set (listing s sfx (p @ [fst e]) (snd e))"
      and g: "g \<in> set (listing_entries s sfx p es)" and eq: "Name f = Name g" by auto
    have "f \<in> hits s sfx (p @ [fst e]) (snd e)" using f listing_hits[OF wn] by simp
    then obtain q where q: "list_all plain q" "Name f = join_slash ((p @ [fst e]) @ q)"
      using hits_Name[OF wn] by blast
    have wd: "wf_names (Dir es)" using we d by simp
    have "g \<in> hits s sfx p (Dir es)" using g listing_entries_hits[OF we d] by simp
    then obtain r m where r: "list_all plain r" "Name g = join_slash (p @ r)"
      "locate (Dir es) r = Inr m" "\<not> is_dir m"
      using hits_Name[OF wd] by blast
    then obtain c r' m' where r': "r = c # r'" "map_of es c = Some m'"
      using locate_Dir_leaf_iff[OF r(4)] by blast
    then have "(c, m') \<in> set es" by (simp add: map_of_SomeD)
    then have cin: "c \<in> fst ` set es" by force
    have "(p @ [fst e]) @ q = p @ r"
      using join_slash_inject[of "(p @ [fst e]) @ q" "p @ r"] q r eq "5.prems"(3) pe r'
      by auto
    then have "fst e = c" using r' by simp
    then show False using cin ne by simp
  qed
  show ?case using d1 d2 disj by simp
qed

lemma wf_names_locate: "wf_names t \<Longrightarrow> locate t p = Inr n \<Longrightarrow> wf_names n"
  using locate_plain by blast

lemma lookup_get: "lookup s p fl = Inr (cp, n) \<Longrightarrow> get (tree s) cp = Some n"
  by (auto simp: lookup_def split: sum.splits option.splits)

lemma get_Some_locate: "get t p = Some m \<longleftrightarrow> locate t p = Inr m"
  by (simp add: get_locate split: sum.splits)


lemmas list_defs = List_def filepath_WalkDir_def list_visit_def filepath_Join_def
  filepath_ToSlash_def strings_TrimPrefix_def strings_HasSuffix_def

text \<open>
  C6, as claimed: \<open>List\<close> returns an entry for exactly the regular files below
  \<open>root/prefix\<close>, and nothing and no error when \<open>root/prefix\<close> does not
  exist. Both fail. The callback of \<open>List\<close> leaves out directories only: in the
  directory \<open>a\<close> of \<open>ex_list_links\<close> the symbolic links \<open>l.json\<close> and
  \<open>d\<close> are listed too, as they are and with the size of the link. And nothing
  exists at \<open>a/x.json/under\<close> in \<open>ex_list\<close>, below the regular file
  \<open>a/x.json\<close>; the filesystem answers \<open>ENOTDIR\<close> there and \<open>List\<close>
  fails with that error wrapped.
\<close>

theorem List_counterexample:
  "get (tree ex_list_links) [''data'', ''a'', ''l.json''] = Some (Symlink ''x.json'')
   \<and> get (tree ex_list_links) [''data'', ''a'', ''d''] = Some (Symlink ''/data/b'')
   \<and> List ex_fs ''a'' ''.json'' ex_list_links
       = ([\<lparr>Name = ''x.json'', Size = 2\<rparr>, \<lparr>Name = ''l.json'', Size = 6\<rparr>], None)
   \<and> List ex_fs ''a'' [] ex_list_links
       = ([\<lparr>Name = ''x.json'', Size = 2\<rparr>, \<lparr>Name = ''l.json'', Size = 6\<rparr>,
           \<lparr>Name = ''d'', Size = 7\<rparr>], None)
   \<and> get (tree ex_list) [''data'', ''a'', ''x.json''] = Some (File [1, 2])
   \<and> get (tree ex_list) [''data'', ''a'', ''x.json'', ''under''] = None
   \<and> lookup ex_list (filepath_Join (root ex_fs) ''a/x.json/under'') False = Inl ENOTDIR
   \<and> List ex_fs ''a/x.json/under'' ''.bin'' ex_list
       = ([], Some (Wrapped (OsError ENOTDIR) ''walking the path''))"
  by (simp add: ex_list_def ex_list_links_def ex_defs list_defs path_defs os_defs errors_Wrapf_def)

text \<open>
  C6, amended. Let the names in every directory be plain and distinct, the root
  absolute, \<open>Lstat\<close> and \<open>ReadDir\<close> not faulted. Where the filesystem
  reports that nothing exists at \<open>root/prefix\<close> with \<open>ENOENT\<close>,
  \<open>List\<close> returns no entry and no error; any other error of that lookup is
  returned wrapped. Where a node is there, \<open>List\<close> returns no error and exactly
  one \<open>FileInfo\<close> for every node other than a directory (a regular file, or a
  symbolic link, not followed) at a non-empty relative path \<open>p\<close> below it whose
  slash-joined relative path ends with the suffix, carrying that relative path as its
  name and the size the system reports for the node, and nothing else. In a store of
  directories and regular files this reads on the tree: nothing and no error where
  a name of \<open>root/prefix\<close> is missing from a directory, the wrapped
  \<open>ENOTDIR\<close> where \<open>root/prefix\<close> runs through a regular file, and
  otherwise exactly the regular files below \<open>root/prefix\<close> whose relative path
  ends with the suffix, each with its length.
\<close>

theorem List_exact:
  assumes wn: "wf_names (tree s)" and ab: "abs_root fs"
    and ls: "fault s SysLstat = None" and rd: "fault s SysReadDir = None"
  shows "(lookup s (filepath_Join (root fs) pfx) False = Inl ENOENT \<longrightarrow>
            List fs pfx sfx s = ([], None))
       \<and> (\<forall>e. lookup s (filepath_Join (root fs) pfx) False = Inl e \<and> e \<noteq> ENOENT \<longrightarrow>
            List fs pfx sfx s = ([], Some (Wrapped (OsError e) ''walking the path'')))
       \<and> (\<forall>cp n. lookup s (filepath_Join (root fs) pfx) False = Inr (cp, n) \<longrightarrow>
            snd (List fs pfx sfx s) = None
          \<and> set (fst (List fs pfx sfx s))
              = {\<lparr>Name = join_slash p, Size = FSize (node_info s m)\<rparr> | p m.
                   p \<noteq> [] \<and> get (tree s) (cp @ p) = Some m \<and> \<not> IsDir (node_info s m)
                   \<and> strings_HasSuffix (join_slash p) sfx}
          \<and> distinct (map Name (fst (List fs pfx sfx s))))
       \<and> (wf_tree (tree s) \<longrightarrow>
            (locate (tree s) (final_path fs pfx) = Inl ENOENT \<longrightarrow> List fs pfx sfx s = ([], None))
          \<and> (locate (tree s) (final_path fs pfx) = Inl ENOTDIR \<longrightarrow>
               List fs pfx sfx s = ([], Some (Wrapped (OsError ENOTDIR) ''walking the path'')))
          \<and> (\<forall>n. locate (tree s) (final_path fs pfx) = Inr n \<longrightarrow>
               snd (List fs pfx sfx s) = None
             \<and> set (fst (List fs pfx sfx s))
                 = {\<lparr>Name = join_slash p, Size = int (length b)\<rparr> | p b.
                      p \<noteq> [] \<and> locate (tree s) (final_path fs pfx @ p) = Inr (File b)
                      \<and> strings_HasSuffix (join_slash p) sfx}))"
proof -
  let ?B = "final_path fs pfx"
  have base: "filepath_Join (root fs) pfx = path_string ?B"
    using ab by (simp add: filepath_Join_def final_string)
  have part1: "lookup s (filepath_Join (root fs) pfx) False = Inl ENOENT \<longrightarrow>
            List fs pfx sfx s = ([], None)"
    using ls by (simp add: List_def filepath_WalkDir_def os_Lstat_def list_visit_def)
  have part1': "\<forall>e. lookup s (filepath_Join (root fs) pfx) False = Inl e \<and> e \<noteq> ENOENT \<longrightarrow>
            List fs pfx sfx s = ([], Some (Wrapped (OsError e) ''walking the path''))"
    using ls
    by (simp add: List_def filepath_WalkDir_def os_Lstat_def list_visit_def errors_Wrapf_def)
  have part2: "snd (List fs pfx sfx s) = None
          \<and> set (fst (List fs pfx sfx s))
              = {\<lparr>Name = join_slash p, Size = FSize (node_info s m)\<rparr> | p m.
                   p \<noteq> [] \<and> get (tree s) (cp @ p) = Some m \<and> \<not> IsDir (node_info s m)
                   \<and> strings_HasSuffix (join_slash p) sfx}
          \<and> distinct (map Name (fst (List fs pfx sfx s)))"
    if lk: "lookup s (filepath_Join (root fs) pfx) False = Inr (cp, n)" for cp n
  proof -
    have loc: "locate (tree s) cp = Inr n" using lookup_get[OF lk] by (simp add: get_Some_locate)
    have wnn: "wf_names n" using wn loc by (rule wf_names_locate)
    have plB: "list_all plain (?B @ [])" by (simp add: final_plain)
    have w: "walkDir s (list_visit (path_string ?B) sfx) (path_string ?B) n []
               = (None, listing s sfx [] n)"
      using walk_listing(1)[OF rd refl _ plB wnn, of "path_string ?B" sfx "[]"] by simp
    have L: "List fs pfx sfx s = (listing s sfx [] n, None)"
      using lk ls w by (simp add: List_def base filepath_WalkDir_def os_Lstat_def)
    have "hits s sfx [] n = {\<lparr>Name = join_slash p, Size = FSize (node_info s m)\<rparr> | p m.
                   p \<noteq> [] \<and> get (tree s) (cp @ p) = Some m \<and> \<not> IsDir (node_info s m)
                   \<and> strings_HasSuffix (join_slash p) sfx}"
      using loc by (auto simp: hits_def hit_def get_Some_locate IsDir_node_info locate_append)
    then show ?thesis
      using L listing_hits[OF wnn] listing_distinct(1)[OF wnn, of "[]"] by simp
  qed
  have part3: "(locate (tree s) ?B = Inl ENOENT \<longrightarrow> List fs pfx sfx s = ([], None))
          \<and> (locate (tree s) ?B = Inl ENOTDIR \<longrightarrow>
               List fs pfx sfx s = ([], Some (Wrapped (OsError ENOTDIR) ''walking the path'')))
          \<and> (\<forall>n. locate (tree s) ?B = Inr n \<longrightarrow>
               snd (List fs pfx sfx s) = None
             \<and> set (fst (List fs pfx sfx s))
                 = {\<lparr>Name = join_slash p, Size = int (length b)\<rparr> | p b.
                      p \<noteq> [] \<and> locate (tree s) (?B @ p) = Inr (File b)
                      \<and> strings_HasSuffix (join_slash p) sfx})"
    if wf: "wf_tree (tree s)"
  proof -
    have lk: "lookup s (filepath_Join (root fs) pfx) False =
        (case locate (tree s) ?B of Inl e \<Rightarrow> Inl e | Inr m \<Rightarrow> Inr (?B, m))"
      by (simp add: base lookup_plain[OF wf final_plain])
    have lf: "link_free (tree s)" using wf by (simp add: wf_tree_def)
    have a: "locate (tree s) ?B = Inl ENOENT \<longrightarrow> List fs pfx sfx s = ([], None)"
      using part1 lk by simp
    have b: "locate (tree s) ?B = Inl ENOTDIR \<longrightarrow>
               List fs pfx sfx s = ([], Some (Wrapped (OsError ENOTDIR) ''walking the path''))"
      using part1' lk by simp
    have c: "snd (List fs pfx sfx s) = None
             \<and> set (fst (List fs pfx sfx s))
                 = {\<lparr>Name = join_slash p, Size = int (length b)\<rparr> | p b.
                      p \<noteq> [] \<and> locate (tree s) (?B @ p) = Inr (File b)
                      \<and> strings_HasSuffix (join_slash p) sfx}"
      if loc: "locate (tree s) ?B = Inr n" for n
    proof -
      have l2: "lookup s (filepath_Join (root fs) pfx) False = Inr (?B, n)" using lk loc by simp
      have isfile: "(locate (tree s) (?B @ p) = Inr m \<and> \<not> is_dir m)
                  \<longleftrightarrow> (\<exists>b. m = File b \<and> locate (tree s) (?B @ p) = Inr (File b))" for p m
        using link_free_locate[OF lf, of "?B @ p" m] by (cases m) (auto simp: is_dir_def)
      have "{\<lparr>Name = join_slash p, Size = FSize (node_info s m)\<rparr> | p m.
                   p \<noteq> [] \<and> get (tree s) (?B @ p) = Some m \<and> \<not> IsDir (node_info s m)
                   \<and> strings_HasSuffix (join_slash p) sfx}
          = {\<lparr>Name = join_slash p, Size = int (length b)\<rparr> | p b.
                      p \<noteq> [] \<and> locate (tree s) (?B @ p) = Inr (File b)
                      \<and> strings_HasSuffix (join_slash p) sfx}" (is "?X = ?Y")
      proof (intro set_eqI iffI)
        fix f assume "f \<in> ?X"
        then obtain p m where h: "f = \<lparr>Name = join_slash p, Size = FSize (node_info s m)\<rparr>"
          "p \<noteq> []" "locate (tree s) (?B @ p) = Inr m" "\<not> is_dir m"
          "strings_HasSuffix (join_slash p) sfx"
          by (auto simp: get_Some_locate IsDir_node_info)
        then obtain b where "m = File b" using isfile[of p m] by blast
        then show "f \<in> ?Y" using h by (auto simp: node_info_def)
      next
        fix f assume "f \<in> ?Y"
        then obtain p b where h: "f = \<lparr>Name = join_slash p, Size = int (length b)\<rparr>"
          "p \<noteq> []" "locate (tree s) (?B @ p) = Inr (File b)"
          "strings_HasSuffix (join_slash p) sfx" by auto
        have "f = \<lparr>Name = join_slash p, Size = FSize (node_info s (File b))\<rparr>"
          using h(1) by (simp add: node_info_def)
        moreover have "get (tree s) (?B @ p) = Some (File b)" using h(3) by (simp add: get_Some_locate)
        moreover have "\<not> IsDir (node_info s (File b))" by (simp add: node_info_def)
        ultimately show "f \<in> ?X" using h(2,4) by blast
      qed
      then show ?thesis using part2[OF l2] by simp
    qed
    show ?thesis using a b c by blast
  qed
  show ?thesis using part1 part1' part2 part3 by blast
qed


theorem List_exact_witness:
  "wf_names (tree ex_list_links) \<and> abs_root ex_fs
   \<and> fault ex_list_links SysLstat = None \<and> fault ex_list_links SysReadDir = None
   \<and> lookup ex_list_links (filepath_Join (root ex_fs) ''does-not-exist'') False = Inl ENOENT
   \<and> List ex_fs ''does-not-exist'' ''.bin'' ex_list_links = ([], None)
   \<and> lookup ex_list_links (filepath_Join (root ex_fs) ''b'') False
       = Inr ([''data'', ''b''], Dir [(''z.json'', File [4])])
   \<and> snd (List ex_fs ''b'' ''.json'' ex_list_links) = None
   \<and> distinct (map Name (fst (List ex_fs ''b'' ''.json'' ex_list_links)))
   \<and> wf_tree (tree ex_list) \<and> wf_names (tree ex_list)
   \<and> fault ex_list SysLstat = None \<and> fault ex_list SysReadDir = None
   \<and> locate (tree ex_list) (final_path ex_fs ''a/x.json/under'') = Inl ENOTDIR
   \<and> List ex_fs ''a/x.json/under'' ''.bin'' ex_list
       = ([], Some (Wrapped (OsError ENOTDIR) ''walking the path''))
   \<and> List ex_fs ''a'' ''.json'' ex_list = ([\<lparr>Name = ''x.json'', Size = 2\<rparr>], None)
   \<and> List ex_fs [] ''.json'' ex_list
       = ([\<lparr>Name = ''a/x.json'', Size = 2\<rparr>, \<lparr>Name = ''b/z.json'', Size = 1\<rparr>], None)"
proof -
  have a: "wf_tree (tree ex_list)" by (simp add: ex_list_def ex_defs wf_tree_def is_dir_def)
  have b: "wf_names (tree ex_list)" by (simp add: ex_list_def ex_defs plain_def)
  have b': "wf_names (tree ex_list_links)" by (simp add: ex_list_links_def ex_defs plain_def)
  have f: "fault ex_list SysLstat = None" "fault ex_list SysReadDir = None"
    by (simp_all add: ex_list_def ex_defs)
  have f': "fault ex_list_links SysLstat = None" "fault ex_list_links SysReadDir = None"
    by (simp_all add: ex_list_links_def ex_defs)
  have l: "lookup ex_list_links (filepath_Join (root ex_fs) ''does-not-exist'') False = Inl ENOENT"
    by (simp add: ex_list_links_def ex_defs filepath_Join_def path_defs lookup_def namei_def)
  have e: "List ex_fs ''does-not-exist'' ''.bin'' ex_list_links = ([], None)"
    using List_exact[OF b' ex_abs f'] l by blast
  have l2: "lookup ex_list_links (filepath_Join (root ex_fs) ''b'') False
       = Inr ([''data'', ''b''], Dir [(''z.json'', File [4])])"
    by (simp add: ex_list_links_def ex_defs filepath_Join_def path_defs lookup_def namei_def)
  have e2: "snd (List ex_fs ''b'' ''.json'' ex_list_links) = None"
    and e3: "distinct (map Name (fst (List ex_fs ''b'' ''.json'' ex_list_links)))"
    using List_exact[OF b' ex_abs f', of "''b''" "''.json''"] l2 by blast+
  have t: "locate (tree ex_list) (final_path ex_fs ''a/x.json/under'') = Inl ENOTDIR"
    by (simp add: ex_list_def ex_defs final_path_def clean_path_def clean_step_def)
  have u: "List ex_fs ''a/x.json/under'' ''.bin'' ex_list
       = ([], Some (Wrapped (OsError ENOTDIR) ''walking the path''))"
    using List_exact[OF b ex_abs f, of "''a/x.json/under''" "''.bin''"] a t by blast
  have x: "List ex_fs ''a'' ''.json'' ex_list = ([\<lparr>Name = ''x.json'', Size = 2\<rparr>], None)"
    by (simp add: ex_list_def ex_defs list_defs path_defs os_defs)
  have y: "List ex_fs [] ''.json'' ex_list
       = ([\<lparr>Name = ''a/x.json'', Size = 2\<rparr>, \<lparr>Name = ''b/z.json'', Size = 1\<rparr>], None)"
    by (simp add: ex_list_def ex_defs list_defs path_defs os_defs)
  show ?thesis using a b b' ex_abs f f' l e l2 e2 e3 t u x y by blast
qed

end
